theory Spec2Isabelle
  imports
    Complex_Main
    "HOL-Library.Sublist"
    "HOL-Library.Char_ord"
    "HOL-Library.List_Lexorder"
    "HOL-Library.Product_Lexorder"
begin

section \<open>Conventions of the embedding\<close>

text \<open>
  The development embeds the scheduling, score-solving, plan-search and snapshot code of
  \<^verbatim>\<open>bot.py\<close> and \<^verbatim>\<open>render_funcs.py\<close>.

  \<^item> Python \<^verbatim>\<open>int\<close> is \<^typ>\<open>int\<close> (or \<^typ>\<open>nat\<close> for counters that only count up).
  \<^item> Python \<^verbatim>\<open>float\<close> is idealised as \<^typ>\<open>rat\<close>: every arithmetic operation is exact,
    binary64 rounding, infinities and NaN are not modelled.
  \<^item> Python \<^verbatim>\<open>str\<close> is \<^typ>\<open>string\<close>; text outside ASCII is its UTF-8 byte sequence.
  \<^item> An exception that the source can raise is a value \<open>Inl e\<close> of a sum type.
  \<^item> The module-level dictionaries (\<^verbatim>\<open>bot_data\<close>, \<^verbatim>\<open>ranking_history\<close>, \<^verbatim>\<open>SONG_DB\<close>) and
    the clock are explicit arguments, and a mutated dictionary is returned.
\<close>

datatype py_error = IndexError | KeyError | ZeroDivisionError | ValueError

subsection \<open>Numbers\<close>


definition py_round :: "rat \<Rightarrow> int" where
  "py_round x =
     (let f = \<lfloor>x\<rfloor>; d = x - of_int f
      in if d < 1 / 2 then f else if 1 / 2 < d then f + 1 else if even f then f else f + 1)"


subsection \<open>Decimal digits and hour labels\<close>

definition is_digit :: "char \<Rightarrow> bool" where
  "is_digit c = (48 \<le> (of_char c :: nat) \<and> (of_char c :: nat) \<le> 57)"

definition digit_val :: "char \<Rightarrow> nat" where
  "digit_val c = of_char c - 48"

definition digit_char :: "nat \<Rightarrow> char" where
  "digit_char n = char_of (48 + n)"

text \<open>\<^verbatim>\<open>int(g)\<close> on a string of ASCII decimal digits.\<close>

definition int_of_digits :: "string \<Rightarrow> nat" where
  "int_of_digits g = foldl (\<lambda>n c. 10 * n + digit_val c) 0 g"

text \<open>The decimal numeral of a natural number, and the format \<^verbatim>\<open>{n:02d}\<close>, which pads
  a one-digit numeral with a zero on the left.\<close>

fun dec :: "nat \<Rightarrow> string" where
  "dec n = (if n < 10 then [digit_char n] else dec (n div 10) @ [digit_char (n mod 10)])"

declare dec.simps [simp del]

definition fmt_02d :: "nat \<Rightarrow> string" where
  "fmt_02d n = (if n < 10 then CHR ''0'' # dec n else dec n)"

text \<open>\<^verbatim>\<open>f"{h%24:02d}:00"\<close>\<close>

definition slot_label :: "nat \<Rightarrow> string" where
  "slot_label h = fmt_02d (h mod 24) @ '':00''"

section \<open>Hour ranges: \<^verbatim>\<open>parse_time_range\<close>\<close>

text \<open>
  \<^verbatim>\<open>re.match(r'(\d{1,2})-(\d{1,2})', s)\<close> matches at the start of \<open>s\<close> and does not look at
  what follows the second group. \<open>digits_1_2\<close> is the greedy group \<^verbatim>\<open>\d{1,2}\<close>: it returns
  the digits taken and the rest. Taking one digit where two are available never helps the
  first group, because the next character would then be a digit and not the hyphen; so the
  greedy choice is the only one that can match. \<^verbatim>\<open>\d\<close> is modelled on ASCII digits.
\<close>

fun digits_1_2 :: "string \<Rightarrow> (string \<times> string) option" where
  "digits_1_2 [] = None"
| "digits_1_2 [c] = (if is_digit c then Some ([c], []) else None)"
| "digits_1_2 (c # d # rest) =
     (if is_digit c then (if is_digit d then Some ([c, d], rest) else Some ([c], d # rest))
      else None)"

definition re_match_range :: "string \<Rightarrow> (string \<times> string) option" where
  "re_match_range s =
     (case digits_1_2 s of
        None \<Rightarrow> None
      | Some (g1, rest) \<Rightarrow>
          (case rest of
             [] \<Rightarrow> None
           | c # rest' \<Rightarrow>
               if c = CHR ''-'' then
                 (case digits_1_2 rest' of None \<Rightarrow> None | Some (g2, _) \<Rightarrow> Some (g1, g2))
               else None))"

definition parse_time_range :: "string \<Rightarrow> string list" where
  "parse_time_range s =
     (case re_match_range s of
        Some (g1, g2) \<Rightarrow>
          (let a = int_of_digits g1; b = int_of_digits g2;
               b = (if b \<le> a then b + 24 else b)
           in map slot_label [a..<b])
      | None \<Rightarrow> [])"

text \<open>A string of one or two decimal digits, as the two numbers of a range are written.\<close>

definition hour_digits :: "string \<Rightarrow> bool" where
  "hour_digits g = ((length g = 1 \<or> length g = 2) \<and> list_all is_digit g)"

section \<open>Score solver: \<^verbatim>\<open>ScoreTable\<close> and \<^verbatim>\<open>find_solution\<close>\<close>

text \<open>
  A \<^verbatim>\<open>ScoreTable\<close> holds \<^verbatim>\<open>score_map\<close>, a dictionary from an achieved score to the triple
  (range, bonus, energy) that first produced it, \<^verbatim>\<open>scores\<close>, its keys sorted descending, and
  \<^verbatim>\<open>score_set\<close>, the set of these keys. The dictionary is an association list in insertion
  order.
\<close>

type_synonym score_origin = "string \<times> rat \<times> int"

record ScoreTable =
  score_map :: "(int \<times> score_origin) list"
  scores :: "int list"
  score_set :: "int set"

text \<open>
  \<^verbatim>\<open>__init__\<close> reads a spreadsheet and, in three nested loops over rows, bonus columns and
  energy multipliers, reaches the statement
  \<^verbatim>\<open>if actual not in self.score_map: self.score_map[actual] = (rng, bonus, e)\<close>
  with a sequence of pairs \<open>(actual, (rng, bonus, e))\<close>. The spreadsheet is outside the model:
  \<open>ScoreTable_init\<close> takes that sequence and does what the constructor does with it.
\<close>

definition score_map_add :: "(int \<times> score_origin) list \<Rightarrow> int \<times> score_origin \<Rightarrow> (int \<times> score_origin) list" where
  "score_map_add m cell = (if fst cell \<in> fst ` set m then m else m @ [cell])"

definition ScoreTable_init :: "(int \<times> score_origin) list \<Rightarrow> ScoreTable" where
  "ScoreTable_init cells =
     (let m = foldl score_map_add [] cells;
          ss = rev (sort (map fst m))
      in \<lparr>score_map = m, scores = ss, score_set = set ss\<rparr>)"

text \<open>The state in which the constructor leaves its three fields.\<close>

definition ScoreTable_ok :: "ScoreTable \<Rightarrow> bool" where
  "ScoreTable_ok tbl =
     (distinct (scores tbl) \<and> sorted (rev (scores tbl)) \<and>
      set (scores tbl) = fst ` set (score_map tbl) \<and> score_set tbl = set (scores tbl))"

text \<open>One term of a solution: the dictionary that the local function \<^verbatim>\<open>ms\<close> builds.\<close>

record play_term =
  ms_range :: string
  ms_bonus :: rat
  ms_energy :: int
  ms_score :: int
  ms_plays :: int
  ms_total :: int

definition ms :: "ScoreTable \<Rightarrow> int \<Rightarrow> int \<Rightarrow> py_error + play_term" where
  "ms tbl s p =
     (case map_of (score_map tbl) s of
        None \<Rightarrow> Inl KeyError
      | Some (rng, b, e) \<Rightarrow>
          Inr \<lparr>ms_range = rng, ms_bonus = b, ms_energy = e, ms_score = s, ms_plays = p,
               ms_total = s * p\<rparr>)"

text \<open>
  The first loop of \<^verbatim>\<open>find_solution\<close>. The test \<^verbatim>\<open>s<=target and target%s==0 and ...\<close> is
  evaluated left to right, so \<^verbatim>\<open>target%s\<close> raises at \<open>s = 0\<close> once \<open>0 \<le> target\<close>. Python's
  \<^verbatim>\<open>%\<close> and \<^verbatim>\<open>//\<close> on integers round towards minus infinity, as \<open>mod\<close> and \<open>div\<close> on
  \<^typ>\<open>int\<close> do.
\<close>

fun single_pass :: "ScoreTable \<Rightarrow> int \<Rightarrow> int \<Rightarrow> int list \<Rightarrow> py_error + play_term list option" where
  "single_pass tbl target max_plays [] = Inr None"
| "single_pass tbl target max_plays (s # ss) =
     (if s \<le> target then
        (if s = 0 then Inl ZeroDivisionError
         else if target mod s = 0 \<and> target div s \<le> max_plays then
           (case ms tbl s (target div s) of Inl e \<Rightarrow> Inl e | Inr t \<Rightarrow> Inr (Some [t]))
         else single_pass tbl target max_plays ss)
      else single_pass tbl target max_plays ss)"

text \<open>\<^verbatim>\<open>range(m, 0, -1)\<close>: the integers from \<open>m\<close> down to 1.\<close>

definition range_down :: "int \<Rightarrow> int list" where
  "range_down m = rev [1..m]"

text \<open>The inner loop of the second pass, over the repeat counts \<open>p1\<close>.\<close>

fun try_plays :: "ScoreTable \<Rightarrow> int \<Rightarrow> int \<Rightarrow> int list \<Rightarrow> py_error + play_term list option" where
  "try_plays tbl target s1 [] = Inr None"
| "try_plays tbl target s1 (p1 # ps) =
     (let rem = target - s1 * p1 in
      if rem = 0 then
        (case ms tbl s1 p1 of Inl e \<Rightarrow> Inl e | Inr t \<Rightarrow> Inr (Some [t]))
      else if rem \<in> score_set tbl then
        (case ms tbl s1 p1 of
           Inl e \<Rightarrow> Inl e
         | Inr t1 \<Rightarrow> (case ms tbl rem 1 of Inl e \<Rightarrow> Inl e | Inr t2 \<Rightarrow> Inr (Some [t1, t2])))
      else try_plays tbl target s1 ps)"

text \<open>The outer loop of the second pass; \<^verbatim>\<open>target//s1\<close> raises at \<open>s1 = 0\<close>.\<close>

fun two_pass :: "ScoreTable \<Rightarrow> int \<Rightarrow> int \<Rightarrow> int list \<Rightarrow> py_error + play_term list option" where
  "two_pass tbl target max_plays [] = Inr None"
| "two_pass tbl target max_plays (s1 # ss) =
     (if target < s1 then two_pass tbl target max_plays ss
      else if s1 = 0 then Inl ZeroDivisionError
      else
        (case try_plays tbl target s1 (range_down (min (target div s1) max_plays)) of
           Inl e \<Rightarrow> Inl e
         | Inr (Some sol) \<Rightarrow> Inr (Some sol)
         | Inr None \<Rightarrow> two_pass tbl target max_plays ss))"

text \<open>\<^verbatim>\<open>find_solution(tbl, target, max_plays)\<close>; the table is \<open>None\<close> while none is loaded.
  The result \<open>Inr None\<close> is the source's \<^verbatim>\<open>return None\<close>.\<close>

definition find_solution :: "ScoreTable option \<Rightarrow> int \<Rightarrow> int \<Rightarrow> py_error + play_term list option" where
  "find_solution tbl target max_plays =
     (case tbl of
        None \<Rightarrow> Inr None
      | Some t \<Rightarrow>
          if target \<le> 0 then Inr None
          else
            (case single_pass t target max_plays (scores t) of
               Inl e \<Rightarrow> Inl e
             | Inr (Some sol) \<Rightarrow> Inr (Some sol)
             | Inr None \<Rightarrow> two_pass t target max_plays (scores t)))"

text \<open>The default \<^verbatim>\<open>max_plays=50\<close>.\<close>

definition max_plays_default :: int where
  "max_plays_default = 50"

subsection \<open>The solver as the specification words it\<close>

text \<open>
  The qualifying test of the single-value pass, and the two-value pass written as a search
  through the pairs \<open>(s1, p1)\<close> in the order the specification gives: \<open>s1\<close> through the
  catalog values not above the target, in catalog order, and for each \<open>s1\<close> the repeat counts
  from \<open>min (target div s1) maxRepeats\<close> down to 1. The first pair whose remainder is 0 or a
  catalog value decides the result, given as (score, repeat count) pairs.
\<close>

definition single_value_ok :: "int \<Rightarrow> int \<Rightarrow> int \<Rightarrow> bool" where
  "single_value_ok target maxRepeats s =
     (s \<le> target \<and> target mod s = 0 \<and> target div s \<le> maxRepeats)"

definition spec_two_value_pairs :: "int list \<Rightarrow> int \<Rightarrow> int \<Rightarrow> (int \<times> int) list" where
  "spec_two_value_pairs catalog target maxRepeats =
     concat (map (\<lambda>s1. map (\<lambda>p1. (s1, p1)) (rev [1..min (target div s1) maxRepeats]))
               (filter (\<lambda>s1. s1 \<le> target) catalog))"

definition spec_two_value_hit :: "int list \<Rightarrow> int \<Rightarrow> int \<times> int \<Rightarrow> bool" where
  "spec_two_value_hit catalog target sp =
     (target - fst sp * snd sp = 0 \<or> target - fst sp * snd sp \<in> set catalog)"

definition spec_two_value :: "int list \<Rightarrow> int \<Rightarrow> int \<Rightarrow> (int \<times> int) list option" where
  "spec_two_value catalog target maxRepeats =
     (case find (spec_two_value_hit catalog target) (spec_two_value_pairs catalog target maxRepeats) of
        None \<Rightarrow> None
      | Some (s1, p1) \<Rightarrow>
          Some (if target - s1 * p1 = 0 then [(s1, p1)] else [(s1, p1), (target - s1 * p1, 1)]))"

text \<open>The (score, repeat count) pairs of a solution, and how often it uses a score in total.\<close>

definition term_pairs :: "play_term list \<Rightarrow> (int \<times> int) list" where
  "term_pairs sol = map (\<lambda>t. (ms_score t, ms_plays t)) sol"

definition total_plays_of :: "play_term list \<Rightarrow> int \<Rightarrow> int" where
  "total_plays_of sol s = sum_list (map ms_plays (filter (\<lambda>t. ms_score t = s) sol))"

text \<open>What every returned solution satisfies: the terms sum to the target, there are at
  most two of them, and each term repeats its score at most \<open>mp\<close> times.\<close>

definition exact_terms :: "int \<Rightarrow> int \<Rightarrow> play_term list \<Rightarrow> bool" where
  "exact_terms target mp sol =
     (sum_list (map (\<lambda>t. ms_score t * ms_plays t) sol) = target \<and> length sol \<le> 2 \<and>
      (\<forall>t \<in> set sol. ms_plays t \<le> mp \<and> ms_total t = ms_score t * ms_plays t))"

text \<open>The catalog of the examples: the scores 100, 150 and 250, and the scores 90 and 140.\<close>

definition catalog_100_150_250 :: ScoreTable where
  "catalog_100_150_250 =
     ScoreTable_init [(100, (''a'', 1, 0)), (150, (''b'', 3 / 2, 0)), (250, (''c'', 5 / 2, 0))]"

definition catalog_90_140 :: ScoreTable where
  "catalog_90_140 = ScoreTable_init [(90, (''a'', 1, 0)), (140, (''b'', 3 / 2, 0))]"

section \<open>Schedule engine\<close>

subsection \<open>Applicants and shifts\<close>

text \<open>
  An applicant is the dictionary built at sign-up; all three sign-up paths store the same
  twelve keys, so it is a record. The fields \<^verbatim>\<open>power\<close> and \<^verbatim>\<open>note\<close> are named \<open>app_power\<close> and
  \<open>app_note\<close> here.
\<close>

record applicant =
  user_id :: string
  name :: string
  bonus :: rat
  bonus_2 :: rat
  bonus_3 :: rat
  s6_bonus :: rat
  app_power :: int
  s6_power :: int
  multi :: string
  role :: string
  app_note :: string
  registered_at :: string

text \<open>The values of \<^verbatim>\<open>multi\<close> and the default car type, in UTF-8.\<close>

definition multi_single :: string where
  "multi_single = [CHR 0xE5, CHR 0x96, CHR 0xAE, CHR 0xE9, CHR 0x96, CHR 0x8B]"

definition multi_double :: string where
  "multi_double = [CHR 0xE9, CHR 0x9B, CHR 0x99, CHR 0xE9, CHR 0x96, CHR 0x8B]"

definition multi_triple :: string where
  "multi_triple = [CHR 0xE4, CHR 0xB8, CHR 0x89, CHR 0xE9, CHR 0x96, CHR 0x8B]"

definition car_type_default :: string where
  "car_type_default = [CHR 0xE8, CHR 0x9D, CHR 0xA6]"

text \<open>The fixed leader entry \<^verbatim>\<open>{"name":"omega","fixed":True}\<close>.\<close>

record leader =
  leader_name :: string
  leader_fixed :: bool

definition omega :: leader where
  "omega = \<lparr>leader_name = ''omega'', leader_fixed = True\<rparr>"

text \<open>
  The dictionary that \<^verbatim>\<open>auto_assign_schedule\<close> builds (the key \<^verbatim>\<open>note\<close> is \<open>shift_note\<close>), and
  the dictionary stored per hour, which has the key \<^verbatim>\<open>applicants\<close> in addition. A stored
  dictionary that lacks one of the shift keys (a slot just created as
  \<^verbatim>\<open>{"applicants":[]}\<close>) is modelled by the value that \<^verbatim>\<open>.get\<close> reads for the missing key.
\<close>

record shift =
  car_type :: string
  p1 :: leader
  p2 :: "applicant option"
  p3 :: "applicant option"
  p4 :: "applicant option"
  p5 :: "applicant option"
  support :: "applicant option"
  avg_bonus :: rat
  shift_note :: string

record slot = shift +
  applicants :: "applicant list"

definition new_slot :: slot where
  "new_slot = \<lparr>car_type = car_type_default, p1 = omega, p2 = None, p3 = None, p4 = None,
               p5 = None, support = None, avg_bonus = 0, shift_note = [], applicants = []\<rparr>"

subsection \<open>\<^verbatim>\<open>auto_assign_schedule\<close>\<close>

text \<open>The sort key \<^verbatim>\<open>(-round(b*50)/50, t)\<close>; \<^verbatim>\<open>sorted\<close> is stable, as \<open>sort_key\<close> is. Pairs
  and strings are compared lexicographically.\<close>

definition sk :: "applicant \<Rightarrow> rat \<times> string" where
  "sk x = (- (of_int (py_round (bonus x * 50)) / 50), registered_at x)"

text \<open>The lookup \<^verbatim>\<open>{...}.get(multi,1)\<close> in the dictionary that maps the three values of
  \<^verbatim>\<open>multi\<close> above to 1, 2 and 3.\<close>

definition accs :: "applicant \<Rightarrow> nat" where
  "accs app =
     (if multi app = multi_single then 1
      else if multi app = multi_double then 2
      else if multi app = multi_triple then 3
      else 1)"

text \<open>The list \<^verbatim>\<open>ab\<close>; \<^verbatim>\<open>x or y\<close> is \<open>y\<close> exactly when \<open>x\<close> is zero.\<close>

definition ab :: "applicant \<Rightarrow> rat list" where
  "ab app =
     [bonus app,
      (if bonus_2 app \<noteq> 0 then bonus_2 app else bonus app),
      (if bonus_3 app \<noteq> 0 then bonus_3 app else bonus app)]"

text \<open>The suffix \<^verbatim>\<open>({ai+1}K)\<close> of the display name, where K is the character U+958B.\<close>

definition account_suffix :: "nat \<Rightarrow> string" where
  "account_suffix ai = ''('' @ dec (ai + 1) @ [CHR 0xE9, CHR 0x96, CHR 0x8B] @ '')''"

text \<open>The body of the inner loop up to the store: the copy \<open>c\<close> of the applicant for account
  \<open>ai\<close>. Reading \<^verbatim>\<open>ab[ai]\<close> raises beyond the three entries.\<close>

definition account_copy :: "applicant \<Rightarrow> nat \<Rightarrow> py_error + applicant" where
  "account_copy app ai =
     (if ai < length (ab app) then
        (let c = app\<lparr>bonus := ab app ! ai\<rparr>
         in Inr (if 0 < ai then c\<lparr>name := name app @ account_suffix ai\<rparr> else c))
      else Inl IndexError)"

text \<open>\<^verbatim>\<open>shift[positions[assigned]] = c\<close> with \<^verbatim>\<open>positions = ["p3","p4","p5"]\<close>.\<close>

definition set_position :: "nat \<Rightarrow> applicant \<Rightarrow> shift \<Rightarrow> py_error + shift" where
  "set_position i c sh =
     (if i = 0 then Inr (sh\<lparr>p3 := Some c\<rparr>)
      else if i = 1 then Inr (sh\<lparr>p4 := Some c\<rparr>)
      else if i = 2 then Inr (sh\<lparr>p5 := Some c\<rparr>)
      else Inl IndexError)"

text \<open>The inner loop \<^verbatim>\<open>for ai in range(min(accs, 3-assigned))\<close>, over the list of its indices;
  the state is the shift and the counter \<^verbatim>\<open>assigned\<close>.\<close>

fun place_accounts :: "applicant \<Rightarrow> nat list \<Rightarrow> shift \<times> nat \<Rightarrow> py_error + shift \<times> nat" where
  "place_accounts app [] st = Inr st"
| "place_accounts app (ai # ais) (sh, assigned) =
     (case account_copy app ai of
        Inl e \<Rightarrow> Inl e
      | Inr c \<Rightarrow>
          (case set_position assigned c sh of
             Inl e \<Rightarrow> Inl e
           | Inr sh' \<Rightarrow> place_accounts app ais (sh', assigned + 1)))"

text \<open>The outer loop \<^verbatim>\<open>for app in psa\<close> with its \<^verbatim>\<open>break\<close>.\<close>

fun assign_pushers :: "applicant list \<Rightarrow> shift \<times> nat \<Rightarrow> py_error + shift \<times> nat" where
  "assign_pushers [] st = Inr st"
| "assign_pushers (app # psa) (sh, assigned) =
     (if 3 \<le> assigned then Inr (sh, assigned)
      else
        (case place_accounts app [0..<min (accs app) (3 - assigned)] (sh, assigned) of
           Inl e \<Rightarrow> Inl e
         | Inr st' \<Rightarrow> assign_pushers psa st'))"

text \<open>The alt occupant: a copy of the first alt applicant whose bonus is the alt bonus when
  that is positive.\<close>

definition s6_copy :: "applicant \<Rightarrow> applicant" where
  "s6_copy a = (if 0 < s6_bonus a then a\<lparr>bonus := s6_bonus a\<rparr> else a)"

text \<open>\<^verbatim>\<open>[shift[p].get('bonus',0) for p in ["p3","p4","p5"] if shift[p]]\<close>\<close>

definition pusher_bonuses :: "shift \<Rightarrow> rat list" where
  "pusher_bonuses sh = concat (map (\<lambda>p. case p of None \<Rightarrow> [] | Some c \<Rightarrow> [bonus c]) [p3 sh, p4 sh, p5 sh])"

text \<open>The arguments \<^verbatim>\<open>dt\<close> and \<^verbatim>\<open>hour\<close> are not used by the source. The result \<open>Inr None\<close> is
  the empty dictionary returned for an empty applicant list.\<close>

definition auto_assign_schedule :: "string \<Rightarrow> string \<Rightarrow> applicant list \<Rightarrow> py_error + shift option" where
  "auto_assign_schedule dt hour apps =
     (if apps = [] then Inr None
      else
        (let sa = sort_key sk apps;
             shift0 = \<lparr>car_type = car_type_default, p1 = omega, p2 = None, p3 = None, p4 = None,
                       p5 = None, support = None, avg_bonus = 0, shift_note = []\<rparr>;
             s6a = filter (\<lambda>a. role a = ''s6'') sa;
             spa = filter (\<lambda>a. role a = ''support'') sa;
             psa = filter (\<lambda>a. role a \<noteq> ''s6'' \<and> role a \<noteq> ''support'') sa;
             shift1 = (case s6a of [] \<Rightarrow> shift0 | a # _ \<Rightarrow> shift0\<lparr>p2 := Some (s6_copy a)\<rparr>);
             shift2 = (case spa of [] \<Rightarrow> shift1 | a # _ \<Rightarrow> shift1\<lparr>support := Some a\<rparr>)
         in case assign_pushers psa (shift2, 0) of
              Inl e \<Rightarrow> Inl e
            | Inr (shift3, assigned) \<Rightarrow>
                (let bs = pusher_bonuses shift3
                 in Inr (Some (shift3\<lparr>avg_bonus :=
                      (if bs \<noteq> [] then sum_list bs / of_nat (length bs) else 0)\<rparr>)))))"

subsection \<open>\<^verbatim>\<open>refresh_schedule\<close>\<close>

text \<open>
  The schedule of one day is a dictionary from hour label to slot, an association list in
  insertion order; \<^verbatim>\<open>bot_data["schedule"]\<close> maps a date to it. The loop body of
  \<^verbatim>\<open>refresh_schedule\<close> sets \<^verbatim>\<open>shift["applicants"]\<close> and overwrites the stored dictionary key by
  key with \<^verbatim>\<open>update\<close>; an empty shift dictionary would overwrite \<^verbatim>\<open>applicants\<close> only.
\<close>

definition update_slot :: "slot \<Rightarrow> shift \<Rightarrow> applicant list \<Rightarrow> slot" where
  "update_slot sl sh apps =
     sl\<lparr>car_type := car_type sh, p1 := p1 sh, p2 := p2 sh, p3 := p3 sh, p4 := p4 sh,
        p5 := p5 sh, support := support sh, avg_bonus := avg_bonus sh,
        shift_note := shift_note sh, applicants := apps\<rparr>"

definition refresh_slot :: "string \<Rightarrow> string \<Rightarrow> slot \<Rightarrow> py_error + slot" where
  "refresh_slot dt h sl =
     (let apps = applicants sl in
      if apps \<noteq> [] then
        (case auto_assign_schedule dt h apps of
           Inl e \<Rightarrow> Inl e
         | Inr None \<Rightarrow> Inr (sl\<lparr>applicants := apps\<rparr>)
         | Inr (Some sh) \<Rightarrow> Inr (update_slot sl sh apps))
      else Inr sl)"

fun refresh_slots :: "string \<Rightarrow> (string \<times> slot) list \<Rightarrow> py_error + (string \<times> slot) list" where
  "refresh_slots dt [] = Inr []"
| "refresh_slots dt ((h, sl) # rest) =
     (case refresh_slot dt h sl of
        Inl e \<Rightarrow> Inl e
      | Inr sl' \<Rightarrow>
          (case refresh_slots dt rest of Inl e \<Rightarrow> Inl e | Inr rest' \<Rightarrow> Inr ((h, sl') # rest')))"

text \<open>\<^verbatim>\<open>refresh_schedule(dt)\<close>; \<open>today\<close> is the value of \<^verbatim>\<open>get_today()\<close>, used when \<^verbatim>\<open>dt\<close> is
  \<open>None\<close>. A date without schedule is read as the empty dictionary and nothing is stored.\<close>

definition refresh_schedule ::
  "string \<Rightarrow> string option \<Rightarrow> (string \<rightharpoonup> (string \<times> slot) list) \<Rightarrow>
     py_error + (string \<rightharpoonup> (string \<times> slot) list)" where
  "refresh_schedule today dt schedule =
     (let d = (case dt of None \<Rightarrow> today | Some d \<Rightarrow> d) in
      case schedule d of
        None \<Rightarrow> Inr schedule
      | Some day \<Rightarrow>
          (case refresh_slots d day of
             Inl e \<Rightarrow> Inl e
           | Inr day' \<Rightarrow> Inr (schedule(d \<mapsto> day'))))"

subsection \<open>The assignment as the specification words it\<close>

text \<open>
  The occupants that one pusher candidate contributes: one per declared account, the first
  being the candidate, the second and third carrying the secondary and tertiary bonus (the
  primary one where that is zero) and the name with the account suffix. The three pusher
  positions take the first three occupants of the candidates in order.
\<close>

definition occupant :: "applicant \<Rightarrow> nat \<Rightarrow> applicant" where
  "occupant app ai =
     (if ai = 0 then app\<lparr>bonus := bonus app\<rparr>
      else if ai = 1 then
        app\<lparr>bonus := (if bonus_2 app = 0 then bonus app else bonus_2 app),
            name := name app @ account_suffix 1\<rparr>
      else
        app\<lparr>bonus := (if bonus_3 app = 0 then bonus app else bonus_3 app),
            name := name app @ account_suffix ai\<rparr>)"

definition occupants :: "applicant \<Rightarrow> applicant list" where
  "occupants app = map (occupant app) [0..<accs app]"

definition pusher_candidates :: "applicant list \<Rightarrow> applicant list" where
  "pusher_candidates apps =
     filter (\<lambda>a. role a \<noteq> ''s6'' \<and> role a \<noteq> ''support'') (sort_key sk apps)"

definition spec_positions :: "applicant list \<Rightarrow> applicant option list" where
  "spec_positions psa =
     (let occ = take 3 (concat (map occupants psa))
      in map Some occ @ replicate (3 - length occ) None)"

definition filled :: "applicant option list \<Rightarrow> nat" where
  "filled ps = length (filter (\<lambda>p. p \<noteq> None) ps)"

text \<open>The mean of the bonuses in the occupied pusher slots, 0 when none is occupied.\<close>

definition occupied_pushers :: "'a shift_scheme \<Rightarrow> applicant list" where
  "occupied_pushers sh = List.map_filter (\<lambda>p. p) [p3 sh, p4 sh, p5 sh]"

definition mean_pusher_bonus :: "'a shift_scheme \<Rightarrow> rat" where
  "mean_pusher_bonus sh =
     (if occupied_pushers sh = [] then 0
      else sum_list (map bonus (occupied_pushers sh)) / of_nat (length (occupied_pushers sh)))"

text \<open>Applicants for the examples.\<close>

definition pusher :: "string \<Rightarrow> rat \<Rightarrow> string \<Rightarrow> string \<Rightarrow> applicant" where
  "pusher n b m t =
     \<lparr>user_id = n, name = n, bonus = b, bonus_2 = 0, bonus_3 = 0, s6_bonus = 0,
      app_power = 0, s6_power = 0, multi = m, role = ''pusher'', app_note = [],
      registered_at = t\<rparr>"

definition double_without_second :: applicant where
  "double_without_second = pusher ''a'' 2 multi_double ''2024-05-01T08:00:00''"

definition example_s6 :: applicant where
  "example_s6 = (pusher ''s'' 2 multi_single ''2024-05-01T08:00:00'')\<lparr>role := ''s6''\<rparr>"

definition example_edited_slot :: slot where
  "example_edited_slot =
     new_slot\<lparr>car_type := ''sage'', shift_note := ''full combo only'',
              applicants := [double_without_second]\<rparr>"

subsection \<open>Auxiliary notions for the proofs\<close>

text \<open>The shift whose pusher positions hold the occupants \<open>occ\<close> in order, the other fields
  being those of \<open>base\<close>.\<close>

definition opt_nth :: "'a list \<Rightarrow> nat \<Rightarrow> 'a option" where
  "opt_nth xs i = (if i < length xs then Some (xs ! i) else None)"

definition with_pos :: "shift \<Rightarrow> applicant list \<Rightarrow> shift" where
  "with_pos base occ = base\<lparr>p3 := opt_nth occ 0, p4 := opt_nth occ 1, p5 := opt_nth occ 2\<rparr>"

text \<open>The shift before the pusher loop: the alt and support occupants are set.\<close>

definition base_shift :: "applicant list \<Rightarrow> shift" where
  "base_shift apps =
     \<lparr>car_type = car_type_default, p1 = omega,
      p2 = (case filter (\<lambda>a. role a = ''s6'') (sort_key sk apps) of
              [] \<Rightarrow> None | a # _ \<Rightarrow> Some (s6_copy a)),
      p3 = None, p4 = None, p5 = None,
      support = (case filter (\<lambda>a. role a = ''support'') (sort_key sk apps) of
                   [] \<Rightarrow> None | a # _ \<Rightarrow> Some a),
      avg_bonus = 0, shift_note = []\<rparr>"

text \<open>The shift that \<^verbatim>\<open>auto_assign_schedule\<close> returns for a non-empty applicant list, in closed form.\<close>

definition assigned_shift :: "applicant list \<Rightarrow> shift" where
  "assigned_shift apps =
     (let sh = with_pos (base_shift apps) (take 3 (concat (map occupants (pusher_candidates apps))))
      in sh\<lparr>avg_bonus := mean_pusher_bonus sh\<rparr>)"

subsection \<open>The closing window: \<^verbatim>\<open>is_signup_closed\<close>\<close>

text \<open>
  A naive \<^verbatim>\<open>datetime\<close>: the day as its proleptic ordinal, and the time of day. \<open>micros\<close> is
  the position on the time line in microseconds, which is what comparison and subtraction
  of two \<^verbatim>\<open>datetime\<close> values work on. The range limits of \<^verbatim>\<open>datetime\<close> (year 9999) are not
  modelled.
\<close>

record datetime =
  dt_ordinal :: int
  dt_hour :: nat
  dt_minute :: nat
  dt_second :: nat
  dt_microsecond :: nat

definition datetime_ok :: "datetime \<Rightarrow> bool" where
  "datetime_ok d =
     (dt_hour d < 24 \<and> dt_minute d < 60 \<and> dt_second d < 60 \<and> dt_microsecond d < 1000000)"

definition micros :: "datetime \<Rightarrow> int" where
  "micros d =
     (((dt_ordinal d * 24 + int (dt_hour d)) * 60 + int (dt_minute d)) * 60 + int (dt_second d))
       * 1000000 + int (dt_microsecond d)"

text \<open>\<^verbatim>\<open>now.replace(hour=sh,minute=0,second=0,microsecond=0)\<close> raises \<^verbatim>\<open>ValueError\<close> unless
  \<open>0 \<le> sh \<le> 23\<close>.\<close>

definition replace_hour :: "datetime \<Rightarrow> int \<Rightarrow> py_error + datetime" where
  "replace_hour d sh =
     (if 0 \<le> sh \<and> sh \<le> 23 then
        Inr (d\<lparr>dt_hour := nat sh, dt_minute := 0, dt_second := 0, dt_microsecond := 0\<rparr>)
      else Inl ValueError)"

text \<open>\<^verbatim>\<open>st += timedelta(days=1)\<close>\<close>

definition add_day :: "datetime \<Rightarrow> datetime" where
  "add_day d = d\<lparr>dt_ordinal := dt_ordinal d + 1\<rparr>"

text \<open>
  \<^verbatim>\<open>(st-now).total_seconds()/3600\<close>, as the exact quotient. The source compares the binary64
  value with 1 and 2; both roundings are monotone and exact at 3600 and 7200 seconds, and a
  difference of whole microseconds beyond one of these bounds exceeds it by a microsecond,
  which the roundings keep apart, so the comparisons agree with those on the exact quotient.
\<close>

definition hours_from :: "datetime \<Rightarrow> datetime \<Rightarrow> rat" where
  "hours_from now st = of_int (micros st - micros now) / 1000000 / 3600"

text \<open>
  \<^verbatim>\<open>int(hour_str.split(":")[0])\<close> inside \<^verbatim>\<open>try\<close>: the part before the first colon, read as a
  decimal numeral; \<open>None\<close> stands for the exception, on which the source returns
  \<^verbatim>\<open>(False,"")\<close>. The model reads non-empty strings of ASCII digits and rejects all others;
  \<^verbatim>\<open>int\<close> also accepts a sign, surrounding blanks, underscores between digits and
  non-ASCII digits, which do not occur in the labels that \<^verbatim>\<open>parse_time_range\<close> produces.
\<close>

definition before_colon :: "string \<Rightarrow> string" where
  "before_colon s = takeWhile (\<lambda>c. c \<noteq> CHR '':'') s"

definition py_int_str :: "string \<Rightarrow> int option" where
  "py_int_str g = (if g \<noteq> [] \<and> list_all is_digit g then Some (int (int_of_digits g)) else None)"

text \<open>The two closing messages after the hour label, in UTF-8.\<close>

definition msg_closed_1h :: string where
  "msg_closed_1h =
     [CHR 0x20, CHR 0xE5, CHR 0xB7, CHR 0xB2, CHR 0xE6, CHR 0x88, CHR 0xAA, CHR 0xE6, CHR 0xAD,
      CHR 0xA2, CHR 0xEF, CHR 0xBC, CHR 0x88, CHR 0xE5, CHR 0x89, CHR 0x8D, CHR 0x31, CHR 0x68,
      CHR 0xEF, CHR 0xBC, CHR 0x89]"

definition msg_closed_2h :: string where
  "msg_closed_2h =
     [CHR 0x20, CHR 0xE5, CHR 0xB7, CHR 0xB2, CHR 0xE6, CHR 0x88, CHR 0xAA, CHR 0xE6, CHR 0xAD,
      CHR 0xA2, CHR 0xEF, CHR 0xBC, CHR 0x88, CHR 0xE5, CHR 0x89, CHR 0x8D, CHR 0x32, CHR 0x68,
      CHR 0xEF, CHR 0xBC, CHR 0x8C, CHR 0x53, CHR 0x36, CHR 0xE5, CHR 0x88, CHR 0xB0, CHR 0xE4,
      CHR 0xBD, CHR 0x8D, CHR 0xEF, CHR 0xBC, CHR 0x89]"

text \<open>
  \<^verbatim>\<open>is_signup_closed(hour_str)\<close>. \<open>now\<close> is the value of \<^verbatim>\<open>datetime.now()\<close> and \<open>today_schedule\<close>
  the dictionary \<^verbatim>\<open>bot_data["schedule"][get_today()]\<close>, empty when absent (the second clock
  reading inside \<^verbatim>\<open>get_today\<close> is taken to fall on the same day as \<open>now\<close>).
\<close>

definition is_signup_closed ::
  "datetime \<Rightarrow> (string \<times> slot) list \<Rightarrow> string \<Rightarrow> py_error + bool \<times> string" where
  "is_signup_closed now today_schedule hour_str =
     (case py_int_str (before_colon hour_str) of
        None \<Rightarrow> Inr (False, [])
      | Some sh \<Rightarrow>
          (case replace_hour now sh of
             Inl e \<Rightarrow> Inl e
           | Inr st0 \<Rightarrow>
               (let st = (if micros st0 < micros now - 12 * 3600 * 1000000 then add_day st0 else st0);
                    hu = hours_from now st;
                    has_s6 = (case map_of today_schedule hour_str of
                                None \<Rightarrow> False
                              | Some sd \<Rightarrow> p2 sd \<noteq> None)
                in if hu \<le> 1 then Inr (True, hour_str @ msg_closed_1h)
                   else if hu \<le> 2 \<and> has_s6 then Inr (True, hour_str @ msg_closed_2h)
                   else Inr (False, []))))"

text \<open>
  The closing rule as the specification words it, on the time line in microseconds: the
  slot starts today at hour \<open>H\<close>, or a day later when that instant is more than 12 hours
  before \<open>now\<close>; \<open>hours_until\<close> is the time from \<open>now\<close> to the start in hours.
\<close>

definition today_at :: "datetime \<Rightarrow> nat \<Rightarrow> int" where
  "today_at now H = dt_ordinal now * 86400000000 + int H * 3600000000"

definition slot_start :: "datetime \<Rightarrow> nat \<Rightarrow> int" where
  "slot_start now H =
     (if today_at now H < micros now - 43200000000 then today_at now H + 86400000000
      else today_at now H)"

definition hours_until :: "datetime \<Rightarrow> nat \<Rightarrow> rat" where
  "hours_until now H = of_int (slot_start now H - micros now) / 3600000000"

definition alt_filled :: "(string \<times> slot) list \<Rightarrow> string \<Rightarrow> bool" where
  "alt_filled today_schedule label = (\<exists>sd. map_of today_schedule label = Some sd \<and> p2 sd \<noteq> None)"

text \<open>Clock readings for the examples: 09:00:00 and 08:59:24 on day 738000.\<close>

definition clock_0900 :: datetime where
  "clock_0900 = \<lparr>dt_ordinal = 738000, dt_hour = 9, dt_minute = 0, dt_second = 0, dt_microsecond = 0\<rparr>"

definition clock_085924 :: datetime where
  "clock_085924 = \<lparr>dt_ordinal = 738000, dt_hour = 8, dt_minute = 59, dt_second = 24, dt_microsecond = 0\<rparr>"

section \<open>Snapshot store: \<^verbatim>\<open>record_ranking_snapshot\<close>\<close>

text \<open>
  \<^verbatim>\<open>ranking_history\<close> holds the event name and the list of snapshots. A snapshot has the keys
  \<^verbatim>\<open>time\<close>, \<^verbatim>\<open>event\<close> and \<^verbatim>\<open>borders\<close>; the latter is a dictionary keyed by \<^verbatim>\<open>str(rank)\<close>, an
  association list keyed by the rank here (\<^verbatim>\<open>str\<close> is injective on integers).
\<close>

record border =
  border_name :: string
  border_score :: int

record snapshot =
  snap_time :: string
  snap_event :: string
  borders :: "(int \<times> border) list"

record ranking_history =
  event_name :: string
  records :: "snapshot list"

text \<open>
  The HTTP response as far as the function reads it: the status and, from the JSON body,
  the list \<^verbatim>\<open>top_100_player_rankings\<close> and the event \<^verbatim>\<open>name\<close> (the defaults of \<^verbatim>\<open>.get\<close> stand
  for missing keys). A player entry may lack each of its keys. Failures of the request
  itself raise before the state is touched and are not modelled.
\<close>

record player =
  player_rank :: "int option"
  player_name :: "string option"
  player_score :: "int option"

record response =
  resp_status :: nat
  top_100_player_rankings :: "player list"
  resp_name :: string

text \<open>\<^verbatim>\<open>d[k] = v\<close> on a dictionary: an existing key keeps its place.\<close>

fun dict_set :: "'k \<Rightarrow> 'v \<Rightarrow> ('k \<times> 'v) list \<Rightarrow> ('k \<times> 'v) list" where
  "dict_set k v [] = [(k, v)]"
| "dict_set k v ((k', v') # m) = (if k' = k then (k, v) # m else (k', v') # dict_set k v m)"

text \<open>The loop body \<^verbatim>\<open>r=p.get('rank'); if r: snapshot["borders"][str(r)]={...}\<close>.\<close>

definition add_border :: "(int \<times> border) list \<Rightarrow> player \<Rightarrow> (int \<times> border) list" where
  "add_border bs p =
     (case player_rank p of
        None \<Rightarrow> bs
      | Some r \<Rightarrow>
          if r \<noteq> 0 then
            dict_set r \<lparr>border_name = (case player_name p of None \<Rightarrow> ''-'' | Some n \<Rightarrow> n),
                        border_score = (case player_score p of None \<Rightarrow> 0 | Some s \<Rightarrow> s)\<rparr> bs
          else bs)"

definition make_snapshot :: "response \<Rightarrow> string \<Rightarrow> snapshot" where
  "make_snapshot resp now_str =
     \<lparr>snap_time = now_str, snap_event = resp_name resp,
      borders = foldl add_border [] (top_100_player_rankings resp)\<rparr>"

text \<open>
  \<^verbatim>\<open>record_ranking_snapshot\<close>, with the response and the string
  \<^verbatim>\<open>now_str = datetime.now().strftime("%Y-%m-%d %H:00")\<close> as arguments. The event name is
  stored before the test for a duplicate hour; \<^verbatim>\<open>records[-336:]\<close> keeps the last 336
  snapshots.
\<close>

definition record_ranking_snapshot :: "response \<Rightarrow> string \<Rightarrow> ranking_history \<Rightarrow> ranking_history" where
  "record_ranking_snapshot resp now_str rh =
     (if resp_status resp \<noteq> 200 then rh
      else if top_100_player_rankings resp = [] then rh
      else
        (let rh1 = rh\<lparr>event_name := resp_name resp\<rparr>;
             rs = records rh1
         in if rs \<noteq> [] \<and> prefix (take 13 now_str) (snap_time (last rs)) then rh1
            else
              (let rs' = rs @ [make_snapshot resp now_str]
               in if 336 < length rs' then rh1\<lparr>records := drop (length rs' - 336) rs'\<rparr>
                  else rh1\<lparr>records := rs'\<rparr>)))"

text \<open>A response that leads to an append, and the stored snapshots of one hour, given by
  the 13 characters \<^verbatim>\<open>YYYY-MM-DD HH\<close>.\<close>

definition usable :: "response \<Rightarrow> bool" where
  "usable resp = (resp_status resp = 200 \<and> top_100_player_rankings resp \<noteq> [])"

definition of_hour :: "string \<Rightarrow> snapshot \<Rightarrow> bool" where
  "of_hour hp s = prefix hp (snap_time s)"

definition records_of_hour :: "string \<Rightarrow> snapshot list \<Rightarrow> snapshot list" where
  "records_of_hour hp rs = filter (of_hour hp) rs"

text \<open>Examples: a response with one player, and a store that holds the hours 10 and 11.\<close>

definition example_response :: response where
  "example_response =
     \<lparr>resp_status = 200,
      top_100_player_rankings = [\<lparr>player_rank = Some 1, player_name = Some ''p'', player_score = Some 5000\<rparr>],
      resp_name = ''event''\<rparr>"

definition snapshot_at :: "string \<Rightarrow> snapshot" where
  "snapshot_at t = \<lparr>snap_time = t, snap_event = ''event'', borders = []\<rparr>"

definition store_10_11 :: ranking_history where
  "store_10_11 =
     \<lparr>event_name = ''event'',
      records = [snapshot_at ''2024-05-01 10:00'', snapshot_at ''2024-05-01 11:00'']\<rparr>"

definition store_09 :: ranking_history where
  "store_09 = \<lparr>event_name = ''event'', records = [snapshot_at ''2024-05-01 09:00'']\<rparr>"

section \<open>Plan search: \<^verbatim>\<open>find_push_plans\<close>\<close>















subsection \<open>The catch-up adjustment as the specification words it\<close>









section \<open>Properties of \<^verbatim>\<open>parse_time_range\<close>\<close>

lemma hour_digits_cases:
  assumes "hour_digits g"
  obtains c where "g = [c]" "is_digit c"
        | c d where "g = [c, d]" "is_digit c" "is_digit d"
proof -
  from assms have len: "length g = 1 \<or> length g = 2" and dig: "list_all is_digit g"
    by (simp_all add: hour_digits_def)
  from len show thesis
  proof
    assume "length g = 1"
    then obtain c where "g = [c]" by (cases g) auto
    with dig that(1) show thesis by simp
  next
    assume "length g = 2"
    then obtain c d where "g = [c, d]"
      by (cases g; cases "tl g") auto
    with dig that(2) show thesis by simp
  qed
qed

lemma hyphen_not_digit: "\<not> is_digit CHR ''-''"
  by (simp add: is_digit_def)

lemma digits_1_2_hyphen:
  "hour_digits g \<Longrightarrow> digits_1_2 (g @ CHR ''-'' # r) = Some (g, CHR ''-'' # r)"
  by (erule hour_digits_cases) (simp_all add: hyphen_not_digit)

lemma digits_1_2_end: "hour_digits g \<Longrightarrow> digits_1_2 g = Some (g, [])"
  by (erule hour_digits_cases) simp_all

lemma re_match_range_hours:
  "hour_digits da \<Longrightarrow> hour_digits db \<Longrightarrow> re_match_range (da @ ''-'' @ db) = Some (da, db)"
  by (simp add: re_match_range_def digits_1_2_hyphen digits_1_2_end)

lemma map_mod_24_wrap:
  assumes "b \<le> a" "a < 24"
  shows "map (\<lambda>h. h mod 24) [a..<b + 24] = [a..<24] @ [0..<b]"
proof -
  have split: "[a..<b + 24] = [a..<24] @ [24..<24 + b]"
    using assms upt_add_eq_append [of a 24 b] by (simp add: add.commute)
  have low: "map (\<lambda>h. h mod 24) [a..<24] = [a..<24]"
    by (rule map_idI) simp
  have "map (\<lambda>h. h mod 24) [24..<24 + b] = map (\<lambda>h. h mod 24) (map (\<lambda>i. i + 24) [0..<b])"
    by (simp add: map_add_upt add.commute)
  also have "\<dots> = map (\<lambda>i. i) [0..<b]"
    unfolding map_map using assms by (intro map_cong) (auto simp: comp_def)
  finally have high: "map (\<lambda>h. h mod 24) [24..<24 + b] = [0..<b]" by simp
  show ?thesis by (simp add: split low high)
qed

text \<open>
  Claim C9. For hour numbers \<open>A\<close> and \<open>B\<close>, each written with one or two digits, parsing
  the string \<open>A-B\<close> yields the labels of the hours \<open>A, A+1, \<dots>, B-1\<close> taken modulo 24, where
  \<open>B\<close> counts as \<open>B + 24\<close> whenever \<open>B \<le> A\<close>; for hours of the day with \<open>B \<le> A\<close> these are the
  hours from \<open>A\<close> to 23 followed by the hours from 0 to \<open>B - 1\<close>; and \<^verbatim>\<open>08-12\<close> gives the hours
  8 to 11.
\<close>

theorem parse_time_range_hours:
  assumes "hour_digits da" and "hour_digits db"
  shows "parse_time_range (da @ ''-'' @ db) =
           map (\<lambda>h. fmt_02d (h mod 24) @ '':00'')
             [int_of_digits da ..<
                (if int_of_digits db \<le> int_of_digits da then int_of_digits db + 24
                 else int_of_digits db)]
         \<and> (int_of_digits db \<le> int_of_digits da \<and> int_of_digits da < 24 \<longrightarrow>
              parse_time_range (da @ ''-'' @ db) =
                map slot_label ([int_of_digits da ..< 24] @ [0 ..< int_of_digits db]))
         \<and> parse_time_range ''08-12'' = [''08:00'', ''09:00'', ''10:00'', ''11:00'']"
proof (intro conjI impI)
  have m: "re_match_range (da @ ''-'' @ db) = Some (da, db)"
    using assms by (rule re_match_range_hours)
  show "parse_time_range (da @ ''-'' @ db) =
           map (\<lambda>h. fmt_02d (h mod 24) @ '':00'')
             [int_of_digits da ..<
                (if int_of_digits db \<le> int_of_digits da then int_of_digits db + 24
                 else int_of_digits db)]"
    unfolding parse_time_range_def m by (simp add: Let_def slot_label_def)
  show "parse_time_range ''08-12'' = [''08:00'', ''09:00'', ''10:00'', ''11:00'']"
    by code_simp
next
  assume w: "int_of_digits db \<le> int_of_digits da \<and> int_of_digits da < 24"
  have m: "re_match_range (da @ ''-'' @ db) = Some (da, db)"
    using assms by (rule re_match_range_hours)
  have lab: "slot_label = (\<lambda>h. fmt_02d (h mod 24) @ '':00'')"
    by (simp add: fun_eq_iff slot_label_def)
  have "map slot_label [int_of_digits da ..< int_of_digits db + 24]
          = map slot_label (map (\<lambda>h. h mod 24) [int_of_digits da ..< int_of_digits db + 24])"
    by (simp add: slot_label_def)
  also have "\<dots> = map slot_label ([int_of_digits da ..< 24] @ [0 ..< int_of_digits db])"
    using w by (simp only: map_mod_24_wrap)
  finally show "parse_time_range (da @ ''-'' @ db) =
                  map slot_label ([int_of_digits da ..< 24] @ [0 ..< int_of_digits db])"
    unfolding parse_time_range_def m using w by (simp add: Let_def)
qed

theorem parse_time_range_hours_witness:
  "hour_digits ''22'' \<and> hour_digits ''2'' \<and>
   parse_time_range ''22-2'' = [''22:00'', ''23:00'', ''00:00'', ''01:00'']"
proof -
  have a: "hour_digits ''22''" and b: "hour_digits ''2''"
    by (simp_all add: hour_digits_def is_digit_def)
  have v: "int_of_digits ''22'' = 22" "int_of_digits ''2'' = 2"
    by (simp_all add: int_of_digits_def digit_val_def)
  have l: "map slot_label ([22 ..< 24] @ [0 ..< 2]) = [''22:00'', ''23:00'', ''00:00'', ''01:00'']"
    by code_simp
  have "int_of_digits ''2'' \<le> int_of_digits ''22'' \<and> int_of_digits ''22'' < 24 \<longrightarrow>
          parse_time_range (''22'' @ ''-'' @ ''2'') =
            map slot_label ([int_of_digits ''22'' ..< 24] @ [0 ..< int_of_digits ''2''])"
    using parse_time_range_hours [OF a b] by (rule conjunct2 [THEN conjunct1])
  then have "parse_time_range (''22'' @ ''-'' @ ''2'') = map slot_label ([22 ..< 24] @ [0 ..< 2])"
    unfolding v by simp
  then have "parse_time_range ''22-2'' = [''22:00'', ''23:00'', ''00:00'', ''01:00'']"
    unfolding l by simp
  with a b show ?thesis by simp
qed

section \<open>Properties of the score solver\<close>

lemma score_map_add_distinct:
  "distinct (map fst m) \<Longrightarrow> distinct (map fst (score_map_add m cell))"
  by (auto simp: score_map_add_def)

lemma foldl_score_map_add_distinct:
  "distinct (map fst m) \<Longrightarrow> distinct (map fst (foldl score_map_add m cells))"
  by (induction cells arbitrary: m) (simp_all add: score_map_add_distinct)

lemma ScoreTable_init_ok: "ScoreTable_ok (ScoreTable_init cells)"
proof -
  have "distinct (map fst (foldl score_map_add [] cells))"
    by (rule foldl_score_map_add_distinct) simp
  then show ?thesis
    by (simp add: ScoreTable_ok_def ScoreTable_init_def Let_def)
qed

lemma ms_key:
  assumes "s \<in> fst ` set (score_map tbl)"
  obtains rng b e where "map_of (score_map tbl) s = Some (rng, b, e)"
    and "ms tbl s p = Inr \<lparr>ms_range = rng, ms_bonus = b, ms_energy = e, ms_score = s,
                            ms_plays = p, ms_total = s * p\<rparr>"
proof -
  from assms obtain v where "map_of (score_map tbl) s = Some v"
    by (metis domD dom_map_of_conv_image_fst)
  then show thesis
    by (cases v) (auto simp: ms_def intro: that)
qed

lemma single_pass_first:
  assumes "find (single_value_ok target mp) ss = Some s" and "0 < s" and "sorted (rev ss)"
  shows "single_pass tbl target mp ss =
           (case ms tbl s (target div s) of Inl e \<Rightarrow> Inl e | Inr t \<Rightarrow> Inr (Some [t]))"
  using assms
proof (induction ss)
  case Nil
  then show ?case by simp
next
  case (Cons x xs)
  show ?case
  proof (cases "single_value_ok target mp x")
    case True
    with Cons.prems have "x = s" by simp
    with True Cons.prems(2) show ?thesis
      by (simp add: single_value_ok_def)
  next
    case False
    with Cons.prems have f: "find (single_value_ok target mp) xs = Some s" by simp
    then have "s \<in> set xs" by (auto simp: find_Some_iff)
    with Cons.prems(3) have "s \<le> x" by (auto simp: sorted_append)
    with Cons.prems(2) have "x \<noteq> 0" by simp
    from Cons.prems(3) have "sorted (rev xs)" by (simp add: sorted_append)
    with f Cons.prems(2) have rec: "single_pass tbl target mp xs =
        (case ms tbl s (target div s) of Inl e \<Rightarrow> Inl e | Inr t \<Rightarrow> Inr (Some [t]))"
      by (rule Cons.IH)
    from False \<open>x \<noteq> 0\<close> have "single_pass tbl target mp (x # xs) = single_pass tbl target mp xs"
      by (auto simp: single_value_ok_def)
    with rec show ?thesis by simp
  qed
qed

lemma single_pass_None:
  assumes "single_pass tbl target mp ss = Inr None" and "0 \<le> target"
  shows "0 \<notin> set ss"
  using assms
  by (induction ss) (auto split: if_splits sum.splits)

lemma try_plays_spec:
  assumes "ScoreTable_ok tbl" and "s1 \<in> set (scores tbl)"
  shows "\<exists>r. try_plays tbl target s1 ps = Inr r \<and>
             map_option term_pairs r =
               (case find (spec_two_value_hit (scores tbl) target) (map (Pair s1) ps) of
                  None \<Rightarrow> None
                | Some (s, p) \<Rightarrow>
                    Some (if target - s * p = 0 then [(s, p)] else [(s, p), (target - s * p, 1)]))"
proof (induction ps)
  case Nil
  show ?case by simp
next
  case (Cons p ps)
  from assms have k1: "s1 \<in> fst ` set (score_map tbl)"
    by (simp add: ScoreTable_ok_def)
  from assms have ss: "score_set tbl = set (scores tbl)"
    and keys: "set (scores tbl) = fst ` set (score_map tbl)"
    by (simp_all add: ScoreTable_ok_def)
  show ?case
  proof (cases "target - s1 * p = 0")
    case True
    from k1 obtain rng b e where "ms tbl s1 p = Inr \<lparr>ms_range = rng, ms_bonus = b, ms_energy = e,
        ms_score = s1, ms_plays = p, ms_total = s1 * p\<rparr>"
      by (rule ms_key)
    with True show ?thesis
      by (simp add: spec_two_value_hit_def term_pairs_def)
  next
    case nz: False
    show ?thesis
    proof (cases "target - s1 * p \<in> set (scores tbl)")
      case True
      from k1 obtain rng b e where m1: "ms tbl s1 p = Inr \<lparr>ms_range = rng, ms_bonus = b,
          ms_energy = e, ms_score = s1, ms_plays = p, ms_total = s1 * p\<rparr>"
        by (rule ms_key)
      from True keys have "target - s1 * p \<in> fst ` set (score_map tbl)" by simp
      then obtain rng' b' e' where m2: "ms tbl (target - s1 * p) 1 =
          Inr \<lparr>ms_range = rng', ms_bonus = b', ms_energy = e', ms_score = target - s1 * p,
               ms_plays = 1, ms_total = (target - s1 * p) * 1\<rparr>"
        by (rule ms_key)
      from nz True m1 m2 ss show ?thesis
        by (simp add: spec_two_value_hit_def term_pairs_def Let_def)
    next
      case False
      with nz ss Cons.IH show ?thesis
        by (simp add: spec_two_value_hit_def Let_def)
    qed
  qed
qed

lemma find_append_case:
  "find P (xs @ ys) = (case find P xs of None \<Rightarrow> find P ys | Some x \<Rightarrow> Some x)"
  by (induction xs) simp_all

lemma spec_two_value_pairs_Cons:
  "spec_two_value_pairs (s # ss) target mp =
     (if s \<le> target then map (Pair s) (range_down (min (target div s) mp)) else [])
       @ spec_two_value_pairs ss target mp"
  by (simp add: spec_two_value_pairs_def range_down_def)

lemma two_pass_spec:
  assumes "ScoreTable_ok tbl" and "set ss \<subseteq> set (scores tbl)" and "0 \<notin> set ss"
  shows "\<exists>r. two_pass tbl target mp ss = Inr r \<and>
             map_option term_pairs r =
               (case find (spec_two_value_hit (scores tbl) target) (spec_two_value_pairs ss target mp) of
                  None \<Rightarrow> None
                | Some (s, p) \<Rightarrow>
                    Some (if target - s * p = 0 then [(s, p)] else [(s, p), (target - s * p, 1)]))"
  using assms(2,3)
proof (induction ss)
  case Nil
  show ?case by (simp add: spec_two_value_pairs_def)
next
  case (Cons s ss)
  then have IH: "\<exists>r. two_pass tbl target mp ss = Inr r \<and>
             map_option term_pairs r =
               (case find (spec_two_value_hit (scores tbl) target) (spec_two_value_pairs ss target mp) of
                  None \<Rightarrow> None
                | Some (s, p) \<Rightarrow>
                    Some (if target - s * p = 0 then [(s, p)] else [(s, p), (target - s * p, 1)]))"
    by simp
  from Cons.prems have s: "s \<in> set (scores tbl)" and nz: "s \<noteq> 0" by auto
  show ?case
  proof (cases "target < s")
    case True
    with IH show ?thesis by (simp add: spec_two_value_pairs_Cons)
  next
    case False
    from try_plays_spec [OF assms(1) s, of target "range_down (min (target div s) mp)"]
    obtain r where r: "try_plays tbl target s (range_down (min (target div s) mp)) = Inr r"
      and rp: "map_option term_pairs r =
               (case find (spec_two_value_hit (scores tbl) target)
                       (map (Pair s) (range_down (min (target div s) mp))) of
                  None \<Rightarrow> None
                | Some (s, p) \<Rightarrow>
                    Some (if target - s * p = 0 then [(s, p)] else [(s, p), (target - s * p, 1)]))"
      by blast
    show ?thesis
    proof (cases r)
      case None
      with rp have "find (spec_two_value_hit (scores tbl) target)
                       (map (Pair s) (range_down (min (target div s) mp))) = None"
        by (auto split: option.splits)
      with None r False nz IH show ?thesis
        by (simp add: spec_two_value_pairs_Cons find_append_case)
    next
      case (Some sol)
      with rp obtain sp where "find (spec_two_value_hit (scores tbl) target)
                       (map (Pair s) (range_down (min (target div s) mp))) = Some sp"
        by (auto split: option.splits)
      with Some r rp False nz show ?thesis
        by (simp add: spec_two_value_pairs_Cons find_append_case)
    qed
  qed
qed


lemma first_is_largest:
  assumes "find P ss = Some s" and "sorted (rev ss)" and "x \<in> set ss" and "P x"
  shows "x \<le> (s::int)"
  using assms
proof (induction ss)
  case Nil
  then show ?case by simp
next
  case (Cons y ys)
  show ?case
  proof (cases "P y")
    case True
    with Cons.prems have "y = s" by simp
    with Cons.prems(2,3) show ?thesis by (auto simp: sorted_append)
  next
    case False
    with Cons.prems have "find P ys = Some s" "x \<in> set ys" "sorted (rev ys)"
      by (auto simp: sorted_append)
    then show ?thesis using Cons.prems(4) by (intro Cons.IH)
  qed
qed

text \<open>
  Claim C4. Let the catalog be as the constructor leaves it (distinct values, sorted
  descending) and the target positive. If \<open>s\<close> is the first catalog value with
  \<open>s \<le> target\<close>, \<open>target mod s = 0\<close> and \<open>target div s \<le> max_plays\<close>, and \<open>s\<close> is positive, then
  the single-value pass returns the one-term solution of \<open>s\<close> repeated \<open>target div s\<close> times,
  and \<^verbatim>\<open>find_solution\<close> returns it without entering the two-value pass; \<open>s\<close> is the largest
  qualifying catalog value. For the catalog 100, 150, 250 and the target 500 the result is
  250 twice. (The catalog being sorted descending, every value scanned before a positive
  \<open>s\<close> is positive, so \<^verbatim>\<open>target % s\<close> is not evaluated at zero, where it raises.)
\<close>

theorem single_value_pass_first:
  assumes "ScoreTable_ok tbl" and "0 < target"
    and "find (single_value_ok target max_plays) (scores tbl) = Some s" and "0 < s"
  shows "(\<exists>rng b e. map_of (score_map tbl) s = Some (rng, b, e) \<and>
            single_pass tbl target max_plays (scores tbl) =
              Inr (Some [\<lparr>ms_range = rng, ms_bonus = b, ms_energy = e, ms_score = s,
                           ms_plays = target div s, ms_total = s * (target div s)\<rparr>]) \<and>
            find_solution (Some tbl) target max_plays =
              Inr (Some [\<lparr>ms_range = rng, ms_bonus = b, ms_energy = e, ms_score = s,
                           ms_plays = target div s, ms_total = s * (target div s)\<rparr>]))
         \<and> s * (target div s) = target
         \<and> (\<forall>x \<in> set (scores tbl). single_value_ok target max_plays x \<longrightarrow> x \<le> s)
         \<and> find_solution (Some catalog_100_150_250) 500 max_plays_default =
              Inr (Some [\<lparr>ms_range = ''c'', ms_bonus = 5 / 2, ms_energy = 0, ms_score = 250,
                           ms_plays = 2, ms_total = 500\<rparr>])"
proof (intro conjI ballI impI)
  from assms(1) have srt: "sorted (rev (scores tbl))"
    and keys: "set (scores tbl) = fst ` set (score_map tbl)"
    by (simp_all add: ScoreTable_ok_def)
  from assms(3) have mem: "s \<in> set (scores tbl)" and q: "single_value_ok target max_plays s"
    by (auto simp: find_Some_iff)
  from mem keys have "s \<in> fst ` set (score_map tbl)" by simp
  then obtain rng b e where mo: "map_of (score_map tbl) s = Some (rng, b, e)"
    and m: "ms tbl s (target div s) =
              Inr \<lparr>ms_range = rng, ms_bonus = b, ms_energy = e, ms_score = s,
                   ms_plays = target div s, ms_total = s * (target div s)\<rparr>"
    by (rule ms_key)
  have sp: "single_pass tbl target max_plays (scores tbl) =
              Inr (Some [\<lparr>ms_range = rng, ms_bonus = b, ms_energy = e, ms_score = s,
                           ms_plays = target div s, ms_total = s * (target div s)\<rparr>])"
    using single_pass_first [OF assms(3,4) srt, of tbl] m by simp
  with assms(2) mo show "\<exists>rng b e. map_of (score_map tbl) s = Some (rng, b, e) \<and>
            single_pass tbl target max_plays (scores tbl) =
              Inr (Some [\<lparr>ms_range = rng, ms_bonus = b, ms_energy = e, ms_score = s,
                           ms_plays = target div s, ms_total = s * (target div s)\<rparr>]) \<and>
            find_solution (Some tbl) target max_plays =
              Inr (Some [\<lparr>ms_range = rng, ms_bonus = b, ms_energy = e, ms_score = s,
                           ms_plays = target div s, ms_total = s * (target div s)\<rparr>])"
    by (simp add: find_solution_def)
  from q have "s dvd target"
    by (simp add: single_value_ok_def mod_eq_0_iff_dvd)
  then show "s * (target div s) = target"
    by simp
  show "find_solution (Some catalog_100_150_250) 500 max_plays_default =
              Inr (Some [\<lparr>ms_range = ''c'', ms_bonus = 5 / 2, ms_energy = 0, ms_score = 250,
                           ms_plays = 2, ms_total = 500\<rparr>])"
    by code_simp
next
  fix x assume "x \<in> set (scores tbl)" and "single_value_ok target max_plays x"
  moreover from assms(1) have "sorted (rev (scores tbl))" by (simp add: ScoreTable_ok_def)
  ultimately show "x \<le> s" using assms(3) by (intro first_is_largest)
qed

theorem single_value_pass_first_witness:
  "ScoreTable_ok catalog_100_150_250 \<and> (0::int) < 500 \<and>
   find (single_value_ok 500 50) (scores catalog_100_150_250) = Some 250 \<and> (0::int) < 250 \<and>
   find_solution (Some catalog_100_150_250) 500 50 =
     Inr (Some [\<lparr>ms_range = ''c'', ms_bonus = 5 / 2, ms_energy = 0, ms_score = 250,
                  ms_plays = 2, ms_total = 500\<rparr>]) \<and>
   \<not> single_value_ok 500 50 150 \<and> single_value_ok 500 50 100 \<and> (100::int) \<le> 250"
proof -
  have ok: "ScoreTable_ok catalog_100_150_250"
    unfolding catalog_100_150_250_def by (rule ScoreTable_init_ok)
  have f: "find (single_value_ok 500 50) (scores catalog_100_150_250) = Some 250"
    by code_simp
  have mo: "map_of (score_map catalog_100_150_250) 250 = Some (''c'', 5 / 2, 0)"
    by code_simp
  have q: "\<not> single_value_ok 500 50 150" "single_value_ok 500 50 100"
    by (simp_all add: single_value_ok_def)
  have "\<exists>rng b e. map_of (score_map catalog_100_150_250) 250 = Some (rng, b, e) \<and>
          single_pass catalog_100_150_250 500 50 (scores catalog_100_150_250) =
            Inr (Some [\<lparr>ms_range = rng, ms_bonus = b, ms_energy = e, ms_score = 250,
                         ms_plays = 500 div 250, ms_total = 250 * (500 div 250)\<rparr>]) \<and>
          find_solution (Some catalog_100_150_250) 500 50 =
            Inr (Some [\<lparr>ms_range = rng, ms_bonus = b, ms_energy = e, ms_score = 250,
                         ms_plays = 500 div 250, ms_total = 250 * (500 div 250)\<rparr>])"
    by (rule single_value_pass_first [OF ok _ f, THEN conjunct1]) simp_all
  then obtain rng b e where "map_of (score_map catalog_100_150_250) 250 = Some (rng, b, e)"
    and fs: "find_solution (Some catalog_100_150_250) 500 50 =
            Inr (Some [\<lparr>ms_range = rng, ms_bonus = b, ms_energy = e, ms_score = 250,
                         ms_plays = 500 div 250, ms_total = 250 * (500 div 250)\<rparr>])"
    by blast
  with mo have "rng = ''c''" "b = 5 / 2" "e = 0" by simp_all
  with fs have "find_solution (Some catalog_100_150_250) 500 50 =
     Inr (Some [\<lparr>ms_range = ''c'', ms_bonus = 5 / 2, ms_energy = 0, ms_score = 250,
                  ms_plays = 2, ms_total = 500\<rparr>])"
    by simp
  with ok f q show ?thesis by simp
qed

text \<open>
  Claim C5. When the single-value pass finds nothing, \<^verbatim>\<open>find_solution\<close> returns what the
  two-value search of the specification returns: with \<open>s1\<close> through the catalog values not
  above the target in catalog (descending) order and \<open>p1\<close> from \<open>min (target div s1) max_plays\<close>
  down to 1, the first pair whose remainder \<open>target - s1 * p1\<close> is 0 or a catalog value, as
  the solution \<open>[(s1, p1)]\<close> or \<open>[(s1, p1), (remainder, 1)]\<close>; and no solution when there is
  no such pair. For the catalog 90, 140 and the target 320 the result is 90 twice and 140
  once.
\<close>

theorem two_value_pass_as_specified:
  assumes "ScoreTable_ok tbl" and "0 < target"
    and "single_pass tbl target max_plays (scores tbl) = Inr None"
  shows "(\<exists>r. find_solution (Some tbl) target max_plays = Inr r \<and>
              map_option term_pairs r = spec_two_value (scores tbl) target max_plays)
         \<and> find_solution (Some catalog_90_140) 320 max_plays_default =
              Inr (Some [\<lparr>ms_range = ''a'', ms_bonus = 1, ms_energy = 0, ms_score = 90,
                           ms_plays = 2, ms_total = 180\<rparr>,
                         \<lparr>ms_range = ''b'', ms_bonus = 3 / 2, ms_energy = 0, ms_score = 140,
                           ms_plays = 1, ms_total = 140\<rparr>])"
proof
  from assms(2,3) have nz: "0 \<notin> set (scores tbl)"
    by (intro single_pass_None [of tbl target max_plays]) simp_all
  from two_pass_spec [OF assms(1) subset_refl nz, of target max_plays]
  obtain r where "two_pass tbl target max_plays (scores tbl) = Inr r"
    and "map_option term_pairs r = spec_two_value (scores tbl) target max_plays"
    unfolding spec_two_value_def by blast
  with assms(2,3)
  show "\<exists>r. find_solution (Some tbl) target max_plays = Inr r \<and>
              map_option term_pairs r = spec_two_value (scores tbl) target max_plays"
    by (simp add: find_solution_def)
  show "find_solution (Some catalog_90_140) 320 max_plays_default =
              Inr (Some [\<lparr>ms_range = ''a'', ms_bonus = 1, ms_energy = 0, ms_score = 90,
                           ms_plays = 2, ms_total = 180\<rparr>,
                         \<lparr>ms_range = ''b'', ms_bonus = 3 / 2, ms_energy = 0, ms_score = 140,
                           ms_plays = 1, ms_total = 140\<rparr>])"
    by code_simp
qed

theorem two_value_pass_as_specified_witness:
  "ScoreTable_ok catalog_90_140 \<and> (0::int) < 320 \<and>
   single_pass catalog_90_140 320 50 (scores catalog_90_140) = Inr None \<and>
   spec_two_value (scores catalog_90_140) 320 50 = Some [(90, 2), (140, 1)] \<and>
   (\<exists>r. find_solution (Some catalog_90_140) 320 50 = Inr r \<and>
        map_option term_pairs r = Some [(90, 2), (140, 1)])"
proof -
  have ok: "ScoreTable_ok catalog_90_140"
    unfolding catalog_90_140_def by (rule ScoreTable_init_ok)
  have sp: "single_pass catalog_90_140 320 50 (scores catalog_90_140) = Inr None"
    by code_simp
  have sv: "spec_two_value (scores catalog_90_140) 320 50 = Some [(90, 2), (140, 1)]"
    by code_simp
  from two_value_pass_as_specified [OF ok _ sp]
  have "\<exists>r. find_solution (Some catalog_90_140) 320 50 = Inr r \<and>
        map_option term_pairs r = spec_two_value (scores catalog_90_140) 320 50"
    by simp
  with ok sp sv show ?thesis by simp
qed

lemma ms_fields:
  "ms tbl s p = Inr t \<Longrightarrow> ms_score t = s \<and> ms_plays t = p \<and> ms_total t = s * p"
  by (auto simp: ms_def split: option.splits)

lemma single_pass_exact:
  "single_pass tbl target mp ss = Inr (Some sol) \<Longrightarrow> exact_terms target mp sol"
proof (induction ss)
  case Nil
  then show ?case by simp
next
  case (Cons s ss)
  show ?case
  proof (cases "s \<le> target \<and> s \<noteq> 0 \<and> target mod s = 0 \<and> target div s \<le> mp")
    case True
    with Cons.prems obtain t where t: "ms tbl s (target div s) = Inr t" and sol: "sol = [t]"
      by (auto split: sum.splits)
    from True have "s * (target div s) = target"
      by (simp add: mod_eq_0_iff_dvd)
    with ms_fields [OF t] True sol show ?thesis
      by (simp add: exact_terms_def)
  next
    case False
    with Cons.prems have "single_pass tbl target mp ss = Inr (Some sol)"
      by (auto split: if_splits)
    then show ?thesis by (rule Cons.IH)
  qed
qed

lemma try_plays_exact:
  assumes "try_plays tbl target s1 ps = Inr (Some sol)" and "\<forall>p \<in> set ps. 1 \<le> p \<and> p \<le> mp"
  shows "exact_terms target mp sol"
  using assms
proof (induction ps)
  case Nil
  then show ?case by simp
next
  case (Cons p ps)
  from Cons.prems(2) have p: "1 \<le> p" "p \<le> mp" by simp_all
  show ?case
  proof (cases "target - s1 * p = 0")
    case True
    with Cons.prems(1) obtain t where t: "ms tbl s1 p = Inr t" and sol: "sol = [t]"
      by (auto split: sum.splits)
    with ms_fields [OF t] True p show ?thesis
      by (simp add: exact_terms_def)
  next
    case nz: False
    show ?thesis
    proof (cases "target - s1 * p \<in> score_set tbl")
      case True
      with nz Cons.prems(1) obtain t1 t2 where t1: "ms tbl s1 p = Inr t1"
        and t2: "ms tbl (target - s1 * p) 1 = Inr t2" and sol: "sol = [t1, t2]"
        by (auto simp: Let_def split: sum.splits)
      with ms_fields [OF t1] ms_fields [OF t2] p show ?thesis
        by (simp add: exact_terms_def)
    next
      case False
      with nz Cons.prems have "try_plays tbl target s1 ps = Inr (Some sol)"
        by (simp add: Let_def)
      with Cons.prems(2) show ?thesis by (intro Cons.IH) simp_all
    qed
  qed
qed

lemma two_pass_exact:
  "two_pass tbl target mp ss = Inr (Some sol) \<Longrightarrow> exact_terms target mp sol"
proof (induction ss)
  case Nil
  then show ?case by simp
next
  case (Cons s1 ss)
  show ?case
  proof (cases "target < s1")
    case True
    with Cons show ?thesis by simp
  next
    case False
    have r: "\<forall>p \<in> set (range_down (min (target div s1) mp)). 1 \<le> p \<and> p \<le> mp"
      by (auto simp: range_down_def)
    from False Cons.prems consider
        "try_plays tbl target s1 (range_down (min (target div s1) mp)) = Inr (Some sol)"
      | "two_pass tbl target mp ss = Inr (Some sol)"
      by (auto split: if_splits sum.splits option.splits)
    then show ?thesis
    proof cases
      case 1
      then show ?thesis using r by (rule try_plays_exact)
    next
      case 2
      then show ?thesis by (rule Cons.IH)
    qed
  qed
qed

lemma find_solution_exact:
  "find_solution tbl target mp = Inr (Some sol) \<Longrightarrow> exact_terms target mp sol"
  by (auto simp: find_solution_def split: option.splits if_splits sum.splits
      dest: single_pass_exact two_pass_exact)

text \<open>
  Claim C6 says that a returned decomposition uses each distinct score at most \<open>max_plays\<close>
  times in total. For the catalog 100, 150, 250 and the target 12750 the single-value pass
  rejects 250 taken 51 times, and the two-value pass then returns 250 taken 50 times
  followed by the remainder 250 taken once: the score 250 is used 51 times, with
  \<open>max_plays = 50\<close>. (The terms do sum to the target and each term alone stays within
  \<open>max_plays\<close>, as shown above for every returned solution.)
\<close>

theorem find_solution_same_value_51_times:
  "find_solution (Some catalog_100_150_250) 12750 max_plays_default =
     Inr (Some [\<lparr>ms_range = ''c'', ms_bonus = 5 / 2, ms_energy = 0, ms_score = 250,
                  ms_plays = 50, ms_total = 12500\<rparr>,
                \<lparr>ms_range = ''c'', ms_bonus = 5 / 2, ms_energy = 0, ms_score = 250,
                  ms_plays = 1, ms_total = 250\<rparr>])
   \<and> total_plays_of
        [\<lparr>ms_range = ''c'', ms_bonus = 5 / 2, ms_energy = 0, ms_score = 250,
           ms_plays = 50, ms_total = 12500\<rparr>,
         \<lparr>ms_range = ''c'', ms_bonus = 5 / 2, ms_energy = 0, ms_score = 250,
           ms_plays = 1, ms_total = 250\<rparr>] 250 = 51
   \<and> max_plays_default < 51"
proof (intro conjI)
  show "find_solution (Some catalog_100_150_250) 12750 max_plays_default =
     Inr (Some [\<lparr>ms_range = ''c'', ms_bonus = 5 / 2, ms_energy = 0, ms_score = 250,
                  ms_plays = 50, ms_total = 12500\<rparr>,
                \<lparr>ms_range = ''c'', ms_bonus = 5 / 2, ms_energy = 0, ms_score = 250,
                  ms_plays = 1, ms_total = 250\<rparr>])"
    by code_simp
qed (simp_all add: total_plays_of_def max_plays_default_def)

section \<open>Properties of the schedule engine\<close>

lemma parse_slot_label: "\<forall>H \<in> set [0..<24]. py_int_str (before_colon (slot_label H)) = Some (int H)"
  by code_simp

lemma account_copy_occupant: "ai < 3 \<Longrightarrow> account_copy app ai = Inr (occupant app ai)"
  by (cases "ai = 0"; cases "ai = 1"; cases "ai = 2")
     (auto simp: account_copy_def occupant_def ab_def Let_def)

lemma set_position_with_pos:
  "length occ < 3 \<Longrightarrow>
     set_position (length occ) c (with_pos base occ) = Inr (with_pos base (occ @ [c]))"
  by (cases occ; cases "tl occ"; cases "tl (tl occ)")
     (auto simp: set_position_def with_pos_def opt_nth_def nth_append)

lemma place_accounts_with_pos:
  "length occ + length ais \<le> 3 \<Longrightarrow> \<forall>ai \<in> set ais. ai < 3 \<Longrightarrow>
     place_accounts app ais (with_pos base occ, length occ) =
       Inr (with_pos base (occ @ map (occupant app) ais), length occ + length ais)"
proof (induction ais arbitrary: occ)
  case Nil
  then show ?case by simp
next
  case (Cons ai ais)
  from Cons.prems have l: "length occ < 3" and a: "ai < 3" by simp_all
  from Cons.prems have "length (occ @ [occupant app ai]) + length ais \<le> 3" "\<forall>ai \<in> set ais. ai < 3"
    by simp_all
  from Cons.IH [OF this] show ?case
    by (simp add: account_copy_occupant [OF a] set_position_with_pos [OF l])
qed

lemma accs_range: "1 \<le> accs app \<and> accs app \<le> 3"
  by (simp add: accs_def)

lemma length_occupants [simp]: "length (occupants app) = accs app"
  by (simp add: occupants_def)

lemma take_upt_0: "take k [0..<n] = [0..<min n k]"
  by (cases "k \<le> n") (simp_all add: min_def)

lemma take_occupants:
  "take k (occupants app) = map (occupant app) [0..<min (accs app) k]"
  by (simp add: occupants_def take_map take_upt_0)

lemma assign_pushers_with_pos:
  "length occ \<le> 3 \<Longrightarrow>
     assign_pushers psa (with_pos base occ, length occ) =
       Inr (with_pos base (take 3 (occ @ concat (map occupants psa))),
            length (take 3 (occ @ concat (map occupants psa))))"
proof (induction psa arbitrary: occ)
  case Nil
  then show ?case by simp
next
  case (Cons app psa)
  show ?case
  proof (cases "3 \<le> length occ")
    case True
    with Cons.prems have "length occ = 3" by simp
    then show ?thesis by simp
  next
    case False
    define k where "k = min (accs app) (3 - length occ)"
    define occ' where "occ' = occ @ map (occupant app) [0..<k]"
    have k3: "length occ + k \<le> 3" using False by (simp add: k_def)
    have "\<forall>ai \<in> set [0..<k]. ai < 3" using False by (auto simp: k_def)
    with k3 have pa: "place_accounts app [0..<k] (with_pos base occ, length occ) =
        Inr (with_pos base occ', length occ')"
      using place_accounts_with_pos [of occ "[0..<k]" app base] by (simp add: occ'_def)
    have l': "length occ' \<le> 3" using k3 by (simp add: occ'_def)
    have tk: "take 3 (occ' @ concat (map occupants psa)) =
              take 3 (occ @ concat (map occupants (app # psa)))"
    proof (cases "accs app \<le> 3 - length occ")
      case True
      then have "k = accs app" by (simp add: k_def)
      then have "occ' = occ @ occupants app" by (simp add: occ'_def occupants_def)
      then show ?thesis by simp
    next
      case False
      then have kk: "k = 3 - length occ" by (simp add: k_def)
      then have len: "length occ' = 3" using \<open>\<not> 3 \<le> length occ\<close> by (simp add: occ'_def)
      have "occ' = occ @ take (3 - length occ) (occupants app)"
        using False by (simp add: occ'_def take_occupants kk min_def)
      then have "occ' = take 3 (occ @ occupants app)"
        using \<open>\<not> 3 \<le> length occ\<close> by simp
      then have "take 3 (occ @ concat (map occupants (app # psa))) = occ'"
        using len by (metis Cons.prems append.assoc concat.simps(2) list.simps(9) take_append
            take_all_iff le_refl append_eq_conv_conj length_take min.absorb2 append_take_drop_id)
      with len show ?thesis by simp
    qed
    from False pa have "assign_pushers (app # psa) (with_pos base occ, length occ) =
        assign_pushers psa (with_pos base occ', length occ')"
      by (simp add: k_def)
    also note Cons.IH [OF l']
    finally show ?thesis
      by (simp only: tk)
  qed
qed

lemma length_le_3_cases:
  assumes "length (xs::'a list) \<le> 3"
  obtains "xs = []" | a where "xs = [a]" | a b where "xs = [a, b]" | a b c where "xs = [a, b, c]"
proof (cases xs)
  case Nil
  then show ?thesis by (rule that(1))
next
  case (Cons a ys)
  note xs = this
  show ?thesis
  proof (cases ys)
    case Nil
    with xs show ?thesis by (auto intro: that(2))
  next
    case (Cons b zs)
    note ys = this
    show ?thesis
    proof (cases zs)
      case Nil
      with xs ys show ?thesis by (auto intro: that(3))
    next
      case (Cons c ws)
      with xs ys assms have "ws = []" by simp
      with xs ys Cons show ?thesis by (auto intro: that(4))
    qed
  qed
qed

lemma positions_with_pos:
  assumes "length occ \<le> 3" and "p3 base = None" and "p4 base = None" and "p5 base = None"
  shows "[p3 (with_pos base occ), p4 (with_pos base occ), p5 (with_pos base occ)] =
           map Some occ @ replicate (3 - length occ) None"
  using assms(1)
  by (rule length_le_3_cases) (simp_all add: with_pos_def opt_nth_def numeral_3_eq_3)

lemma with_pos_fields [simp]:
  "car_type (with_pos base occ) = car_type base"
  "p1 (with_pos base occ) = p1 base"
  "p2 (with_pos base occ) = p2 base"
  "support (with_pos base occ) = support base"
  "shift_note (with_pos base occ) = shift_note base"
  by (simp_all add: with_pos_def)

lemma with_pos_Nil: "p3 base = None \<Longrightarrow> p4 base = None \<Longrightarrow> p5 base = None \<Longrightarrow> with_pos base [] = base"
  by (simp add: with_pos_def opt_nth_def)

lemma pusher_bonuses_mean:
  "(if pusher_bonuses sh \<noteq> [] then sum_list (pusher_bonuses sh) / of_nat (length (pusher_bonuses sh)) else 0)
     = mean_pusher_bonus sh"
  by (cases "p3 sh"; cases "p4 sh"; cases "p5 sh")
     (simp_all add: pusher_bonuses_def mean_pusher_bonus_def occupied_pushers_def List.map_filter_simps)

lemma mean_pusher_bonus_avg_update [simp]:
  "mean_pusher_bonus (sh\<lparr>avg_bonus := x\<rparr>) = mean_pusher_bonus sh"
  by (simp add: mean_pusher_bonus_def occupied_pushers_def)

lemma pusher_bonuses_avg_update [simp]:
  "pusher_bonuses (sh\<lparr>avg_bonus := x\<rparr>) = pusher_bonuses sh"
  by (simp add: pusher_bonuses_def)

lemma auto_assign_schedule_eq:
  assumes "apps \<noteq> []"
  shows "auto_assign_schedule dt hour apps = Inr (Some (assigned_shift apps))"
proof -
  have b: "p3 (base_shift apps) = None" "p4 (base_shift apps) = None" "p5 (base_shift apps) = None"
    by (simp_all add: base_shift_def)
  have s2: "(case filter (\<lambda>a. role a = ''support'') (sort_key sk apps) of
              [] \<Rightarrow> (case filter (\<lambda>a. role a = ''s6'') (sort_key sk apps) of
                       [] \<Rightarrow> \<lparr>car_type = car_type_default, p1 = omega, p2 = None, p3 = None,
                               p4 = None, p5 = None, support = None, avg_bonus = 0, shift_note = []\<rparr>
                     | a # _ \<Rightarrow> \<lparr>car_type = car_type_default, p1 = omega, p2 = None, p3 = None,
                               p4 = None, p5 = None, support = None, avg_bonus = 0, shift_note = []\<rparr>
                                 \<lparr>p2 := Some (s6_copy a)\<rparr>)
            | a # _ \<Rightarrow> (case filter (\<lambda>a. role a = ''s6'') (sort_key sk apps) of
                       [] \<Rightarrow> \<lparr>car_type = car_type_default, p1 = omega, p2 = None, p3 = None,
                               p4 = None, p5 = None, support = None, avg_bonus = 0, shift_note = []\<rparr>
                     | a # _ \<Rightarrow> \<lparr>car_type = car_type_default, p1 = omega, p2 = None, p3 = None,
                               p4 = None, p5 = None, support = None, avg_bonus = 0, shift_note = []\<rparr>
                                 \<lparr>p2 := Some (s6_copy a)\<rparr>)\<lparr>support := Some a\<rparr>)
          = with_pos (base_shift apps) []"
    by (simp add: with_pos_def opt_nth_def base_shift_def split: list.splits)
  have ap: "assign_pushers (pusher_candidates apps) (with_pos (base_shift apps) [], 0) =
        Inr (with_pos (base_shift apps) (take 3 (concat (map occupants (pusher_candidates apps)))),
             length (take 3 (concat (map occupants (pusher_candidates apps)))))"
    using assign_pushers_with_pos [of "[]" "pusher_candidates apps" "base_shift apps"] by simp
  show ?thesis
    using assms
    unfolding auto_assign_schedule_def Let_def s2 pusher_candidates_def [symmetric] ap
    by (simp add: assigned_shift_def Let_def pusher_bonuses_mean)
qed

lemma multi_values_distinct:
  "multi_double \<noteq> multi_single" "multi_triple \<noteq> multi_single" "multi_triple \<noteq> multi_double"
  by (simp_all add: multi_single_def multi_double_def multi_triple_def)

lemma accs_triple: "multi a = multi_triple \<Longrightarrow> accs a = 3"
  by (simp add: accs_def multi_values_distinct)

lemma length_take3_occupants:
  "length (take 3 (concat (map occupants psa))) = min 3 (sum_list (map accs psa))"
  by (simp add: length_concat comp_def min.commute)

lemma filled_spec_positions:
  "filled (spec_positions psa) = min 3 (sum_list (map accs psa))"
proof -
  have "filled (map Some occ @ replicate n None) = length occ" for occ :: "applicant list" and n
    by (induction occ) (simp_all add: filled_def)
  then show ?thesis
    by (simp add: spec_positions_def Let_def length_take3_occupants del: length_take)
qed

lemma positions_assigned_shift:
  "[p3 (assigned_shift apps), p4 (assigned_shift apps), p5 (assigned_shift apps)] =
     spec_positions (pusher_candidates apps)"
proof -
  have b: "p3 (base_shift apps) = None" "p4 (base_shift apps) = None" "p5 (base_shift apps) = None"
    by (simp_all add: base_shift_def)
  have l: "length (take 3 (concat (map occupants (pusher_candidates apps)))) \<le> 3"
    by simp
  from positions_with_pos [OF l b] show ?thesis
    by (simp add: assigned_shift_def Let_def spec_positions_def)
qed

text \<open>
  Claim C2 as stated says that an occupant after the first carries the candidate's
  secondary or tertiary bonus value. For a double-account candidate with primary bonus 2
  and no secondary bonus declared (the registered value 0), the second position holds the
  primary bonus 2 and not the secondary value 0.
\<close>

theorem second_account_without_secondary_bonus:
  "auto_assign_schedule ''2024-05-01'' ''10:00'' [double_without_second] =
     Inr (Some \<lparr>car_type = car_type_default, p1 = omega, p2 = None,
                p3 = Some double_without_second,
                p4 = Some (double_without_second\<lparr>name := ''a'' @ account_suffix 1\<rparr>),
                p5 = None, support = None, avg_bonus = 2, shift_note = []\<rparr>)
   \<and> bonus (double_without_second\<lparr>name := ''a'' @ account_suffix 1\<rparr>) = 2
   \<and> bonus_2 double_without_second = 0"
  by code_simp

text \<open>
  Claim C2, amended. An assignment is produced exactly for a non-empty applicant list (the
  empty list gives the empty dictionary). It fills the pusher
  positions p3, p4, p5 with the first three occupants of the pusher candidates taken in
  sorted order, each candidate contributing 1, 2 or 3 occupants by its declared
  multiplicity (capped by the positions that remain); so at most 3 positions are filled,
  namely the smaller of 3 and the total of the multiplicities. The occupants after a
  candidate's first carry the secondary and tertiary bonus where that is not zero and the
  primary bonus otherwise, and the name with the account-index suffix. A triple candidate
  that is first in sorted order fills all three positions.
\<close>

theorem pusher_positions_filled_in_order:
  assumes "apps \<noteq> []"
  shows "(\<exists>sh. auto_assign_schedule dt hour apps = Inr (Some sh)
            \<and> [p3 sh, p4 sh, p5 sh] = spec_positions (pusher_candidates apps)
            \<and> filled [p3 sh, p4 sh, p5 sh] = min 3 (sum_list (map accs (pusher_candidates apps)))
            \<and> filled [p3 sh, p4 sh, p5 sh] \<le> 3
            \<and> (\<forall>a rest. pusher_candidates apps = a # rest \<and> multi a = multi_triple \<longrightarrow>
                  [p3 sh, p4 sh, p5 sh] =
                    [Some (occupant a 0), Some (occupant a 1), Some (occupant a 2)]))
         \<and> (\<forall>a. length (occupants a) =
                  (if multi a = multi_double then 2 else if multi a = multi_triple then 3 else 1))
         \<and> auto_assign_schedule dt hour [] = Inr None"
proof (intro conjI exI allI impI)
  show "auto_assign_schedule dt hour [] = Inr None"
    by (simp add: auto_assign_schedule_def)
next
  show "auto_assign_schedule dt hour apps = Inr (Some (assigned_shift apps))"
    using assms by (rule auto_assign_schedule_eq)
  show pos: "[p3 (assigned_shift apps), p4 (assigned_shift apps), p5 (assigned_shift apps)] =
          spec_positions (pusher_candidates apps)"
    by (rule positions_assigned_shift)
  show f: "filled [p3 (assigned_shift apps), p4 (assigned_shift apps), p5 (assigned_shift apps)] =
          min 3 (sum_list (map accs (pusher_candidates apps)))"
    unfolding pos by (rule filled_spec_positions)
  show "filled [p3 (assigned_shift apps), p4 (assigned_shift apps), p5 (assigned_shift apps)] \<le> 3"
    unfolding f by simp
next
  fix a rest
  assume h: "pusher_candidates apps = a # rest \<and> multi a = multi_triple"
  then have "accs a = 3" by (simp add: accs_triple)
  then have "occupants a = [occupant a 0, occupant a 1, occupant a 2]"
    by (simp add: occupants_def upt_rec numeral_2_eq_2)
  with h have "spec_positions (pusher_candidates apps) =
      [Some (occupant a 0), Some (occupant a 1), Some (occupant a 2)]"
    by (simp add: spec_positions_def Let_def)
  then show "[p3 (assigned_shift apps), p4 (assigned_shift apps), p5 (assigned_shift apps)] =
      [Some (occupant a 0), Some (occupant a 1), Some (occupant a 2)]"
    by (simp only: positions_assigned_shift)
next
  fix a
  show "length (occupants a) =
          (if multi a = multi_double then 2 else if multi a = multi_triple then 3 else 1)"
    by (simp add: occupants_def accs_def multi_values_distinct)
qed


theorem pusher_positions_filled_in_order_witness:
  "[pusher ''b'' (12 / 5) multi_triple ''t2'', pusher ''c'' 3 multi_single ''t1''] \<noteq> [] \<and>
   (\<exists>sh. auto_assign_schedule ''d'' ''10:00''
            [pusher ''b'' (12 / 5) multi_triple ''t2'', pusher ''c'' 3 multi_single ''t1''] = Inr (Some sh)
      \<and> [p3 sh, p4 sh, p5 sh] =
          [Some (pusher ''c'' 3 multi_single ''t1''),
           Some (pusher ''b'' (12 / 5) multi_triple ''t2''),
           Some ((pusher ''b'' (12 / 5) multi_triple ''t2'')\<lparr>name := ''b'' @ account_suffix 1\<rparr>)]
      \<and> filled [p3 sh, p4 sh, p5 sh] = 3)"
proof -
  let ?apps = "[pusher ''b'' (12 / 5) multi_triple ''t2'', pusher ''c'' 3 multi_single ''t1'']"
  have ne: "?apps \<noteq> []" by simp
  have sp: "spec_positions (pusher_candidates ?apps) =
          [Some (pusher ''c'' 3 multi_single ''t1''),
           Some (pusher ''b'' (12 / 5) multi_triple ''t2''),
           Some ((pusher ''b'' (12 / 5) multi_triple ''t2'')\<lparr>name := ''b'' @ account_suffix 1\<rparr>)]"
    by code_simp
  have m: "min 3 (sum_list (map accs (pusher_candidates ?apps))) = 3"
    by code_simp
  from pusher_positions_filled_in_order [OF ne, of "''d''" "''10:00''"]
  obtain sh where "auto_assign_schedule ''d'' ''10:00'' ?apps = Inr (Some sh)"
    and "[p3 sh, p4 sh, p5 sh] = spec_positions (pusher_candidates ?apps)"
    and "filled [p3 sh, p4 sh, p5 sh] = min 3 (sum_list (map accs (pusher_candidates ?apps)))"
    by blast
  with sp m show ?thesis by auto
qed

lemma refresh_slot_result:
  "\<exists>sl'. refresh_slot dt h sl = Inr sl' \<and>
      (if applicants sl = [] then sl' = sl
       else sl' = update_slot sl (assigned_shift (applicants sl)) (applicants sl))"
  by (simp add: refresh_slot_def Let_def auto_assign_schedule_eq)

lemma refresh_slots_total: "\<exists>day'. refresh_slots dt day = Inr day'"
proof (induction day)
  case Nil
  show ?case by simp
next
  case (Cons hs day)
  obtain h sl where hs: "hs = (h, sl)" by (cases hs)
  from refresh_slot_result [of dt h sl] obtain sl' where "refresh_slot dt h sl = Inr sl'" by blast
  with Cons hs show ?case by auto
qed

lemma refresh_slots_map_of:
  assumes "refresh_slots dt day = Inr day'" and "map_of day h = Some sl"
  shows "\<exists>sl'. map_of day' h = Some sl' \<and> refresh_slot dt h sl = Inr sl'"
  using assms
proof (induction day arbitrary: day')
  case Nil
  then show ?case by simp
next
  case (Cons hs day)
  obtain k s where hs: "hs = (k, s)" by (cases hs)
  from Cons.prems(1) hs obtain s' rest' where s': "refresh_slot dt k s = Inr s'"
    and r: "refresh_slots dt day = Inr rest'" and d: "day' = (k, s') # rest'"
    by (auto split: sum.splits)
  show ?case
  proof (cases "k = h")
    case True
    with Cons.prems(2) hs have "s = sl" by simp
    with True s' d show ?thesis by simp
  next
    case False
    with Cons.prems(2) hs have "map_of day h = Some sl" by simp
    from Cons.IH [OF r this] False d show ?thesis by simp
  qed
qed

lemma refresh_slots_origin:
  assumes "refresh_slots dt day = Inr day'" and "(h, sl') \<in> set day'"
  shows "\<exists>sl. (h, sl) \<in> set day \<and> refresh_slot dt h sl = Inr sl'"
  using assms
proof (induction day arbitrary: day')
  case Nil
  then show ?case by simp
next
  case (Cons hs day)
  obtain k s where hs: "hs = (k, s)" by (cases hs)
  from Cons.prems(1) hs obtain s' rest' where s': "refresh_slot dt k s = Inr s'"
    and r: "refresh_slots dt day = Inr rest'" and d: "day' = (k, s') # rest'"
    by (auto split: sum.splits)
  from Cons.prems(2) d consider "(h, sl') = (k, s')" | "(h, sl') \<in> set rest'" by auto
  then show ?case
  proof cases
    case 1
    with s' hs show ?thesis by auto
  next
    case 2
    from Cons.IH [OF r 2] show ?thesis by auto
  qed
qed

lemma avg_bonus_assigned_shift: "avg_bonus (assigned_shift apps) = mean_pusher_bonus (assigned_shift apps)"
  by (simp add: assigned_shift_def Let_def)

lemma mean_pusher_bonus_update_slot:
  "mean_pusher_bonus (update_slot sl sh apps) = mean_pusher_bonus sh"
  by (simp add: mean_pusher_bonus_def occupied_pushers_def update_slot_def)

lemma refresh_slot_avg:
  assumes "refresh_slot dt h sl = Inr sl'"
    and "applicants sl \<noteq> [] \<or> avg_bonus sl = mean_pusher_bonus sl"
  shows "avg_bonus sl' = mean_pusher_bonus sl'"
proof (cases "applicants sl = []")
  case True
  with assms refresh_slot_result [of dt h sl] show ?thesis by auto
next
  case False
  with assms(1) refresh_slot_result [of dt h sl]
  have sl': "sl' = update_slot sl (assigned_shift (applicants sl)) (applicants sl)" by auto
  then have "avg_bonus sl' = avg_bonus (assigned_shift (applicants sl))"
    by (simp add: update_slot_def)
  moreover from sl' have "mean_pusher_bonus sl' = mean_pusher_bonus (assigned_shift (applicants sl))"
    by (simp only: mean_pusher_bonus_update_slot)
  ultimately show ?thesis
    by (simp only: avg_bonus_assigned_shift)
qed


text \<open>
  Claim C3. The shift that an assignment returns has \<open>avg_bonus\<close> equal to the arithmetic
  mean of the bonuses in the occupied pusher slots p3 to p5, and 0 when none is occupied;
  after a re-assignment by \<^verbatim>\<open>refresh_schedule\<close> every stored slot with applicants has this
  property, and the slots without applicants keep it if they had it. Two single pushers
  with bonuses 2.0 and 2.4 give 2.2, and an assignment without pusher gives 0.
\<close>

theorem avg_bonus_is_mean_of_pushers:
  "(apps \<noteq> [] \<longrightarrow>
      (\<exists>sh. auto_assign_schedule dt hour apps = Inr (Some sh) \<and>
            avg_bonus sh = mean_pusher_bonus sh \<and>
            (p3 sh = None \<and> p4 sh = None \<and> p5 sh = None \<longrightarrow> avg_bonus sh = 0)))
   \<and> (schedule d = Some day \<longrightarrow>
        (\<exists>day'. refresh_schedule today (Some d) schedule = Inr (schedule(d \<mapsto> day')) \<and>
           (\<forall>(h, sl) \<in> set day'. applicants sl \<noteq> [] \<longrightarrow> avg_bonus sl = mean_pusher_bonus sl) \<and>
           ((\<forall>(h, sl) \<in> set day. avg_bonus sl = mean_pusher_bonus sl) \<longrightarrow>
            (\<forall>(h, sl) \<in> set day'. avg_bonus sl = mean_pusher_bonus sl))))
   \<and> (\<exists>sh. auto_assign_schedule ''2024-05-01'' ''10:00''
              [pusher ''a'' 2 multi_single ''t1'', pusher ''b'' (12 / 5) multi_single ''t2''] = Inr (Some sh) \<and>
            map_option bonus (p3 sh) = Some (12 / 5) \<and> map_option bonus (p4 sh) = Some 2 \<and>
            p5 sh = None \<and> avg_bonus sh = 11 / 5)
   \<and> (\<exists>sh. auto_assign_schedule ''2024-05-01'' ''10:00'' [example_s6] = Inr (Some sh) \<and>
            p3 sh = None \<and> p4 sh = None \<and> p5 sh = None \<and> avg_bonus sh = 0)"
proof (intro conjI impI)
  assume "apps \<noteq> []"
  then have "auto_assign_schedule dt hour apps = Inr (Some (assigned_shift apps))"
    by (rule auto_assign_schedule_eq)
  moreover have "p3 sh = None \<and> p4 sh = None \<and> p5 sh = None \<longrightarrow> mean_pusher_bonus sh = 0" for sh :: shift
    by (simp add: mean_pusher_bonus_def occupied_pushers_def List.map_filter_simps)
  ultimately show "\<exists>sh. auto_assign_schedule dt hour apps = Inr (Some sh) \<and>
            avg_bonus sh = mean_pusher_bonus sh \<and>
            (p3 sh = None \<and> p4 sh = None \<and> p5 sh = None \<longrightarrow> avg_bonus sh = 0)"
    by (simp add: avg_bonus_assigned_shift)
next
  assume d: "schedule d = Some day"
  from refresh_slots_total obtain day' where r: "refresh_slots d day = Inr day'" by blast
  have a: "\<forall>(h, sl) \<in> set day'. applicants sl \<noteq> [] \<longrightarrow> avg_bonus sl = mean_pusher_bonus sl"
  proof (clarify)
    fix h sl' assume m: "(h, sl') \<in> set day'" and ne: "applicants sl' \<noteq> []"
    from refresh_slots_origin [OF r m] obtain sl where s: "refresh_slot d h sl = Inr sl'" by blast
    with refresh_slot_result [of d h sl] ne have "applicants sl \<noteq> []"
      by (auto split: if_splits)
    with refresh_slot_avg [OF s] show "avg_bonus sl' = mean_pusher_bonus sl'" by blast
  qed
  have b: "(\<forall>(h, sl) \<in> set day. avg_bonus sl = mean_pusher_bonus sl) \<longrightarrow>
            (\<forall>(h, sl) \<in> set day'. avg_bonus sl = mean_pusher_bonus sl)"
  proof (clarify)
    fix h sl' assume inv: "\<forall>(h, sl) \<in> set day. avg_bonus sl = mean_pusher_bonus sl"
      and m: "(h, sl') \<in> set day'"
    from refresh_slots_origin [OF r m] obtain sl where i: "(h, sl) \<in> set day"
      and s: "refresh_slot d h sl = Inr sl'" by blast
    from inv i have "avg_bonus sl = mean_pusher_bonus sl" by auto
    with refresh_slot_avg [OF s] show "avg_bonus sl' = mean_pusher_bonus sl'" by blast
  qed
  from d r a b show "\<exists>day'. refresh_schedule today (Some d) schedule = Inr (schedule(d \<mapsto> day')) \<and>
           (\<forall>(h, sl) \<in> set day'. applicants sl \<noteq> [] \<longrightarrow> avg_bonus sl = mean_pusher_bonus sl) \<and>
           ((\<forall>(h, sl) \<in> set day. avg_bonus sl = mean_pusher_bonus sl) \<longrightarrow>
            (\<forall>(h, sl) \<in> set day'. avg_bonus sl = mean_pusher_bonus sl))"
    by (intro exI [of _ day']) (simp add: refresh_schedule_def)
next
  have "auto_assign_schedule ''2024-05-01'' ''10:00''
          [pusher ''a'' 2 multi_single ''t1'', pusher ''b'' (12 / 5) multi_single ''t2''] =
        Inr (Some \<lparr>car_type = car_type_default, p1 = omega, p2 = None,
                   p3 = Some (pusher ''b'' (12 / 5) multi_single ''t2''),
                   p4 = Some (pusher ''a'' 2 multi_single ''t1''),
                   p5 = None, support = None, avg_bonus = 11 / 5, shift_note = []\<rparr>)"
    by code_simp
  then show "\<exists>sh. auto_assign_schedule ''2024-05-01'' ''10:00''
              [pusher ''a'' 2 multi_single ''t1'', pusher ''b'' (12 / 5) multi_single ''t2''] = Inr (Some sh) \<and>
            map_option bonus (p3 sh) = Some (12 / 5) \<and> map_option bonus (p4 sh) = Some 2 \<and>
            p5 sh = None \<and> avg_bonus sh = 11 / 5"
    by (simp add: pusher_def)
next
  have "auto_assign_schedule ''2024-05-01'' ''10:00'' [example_s6] =
        Inr (Some \<lparr>car_type = car_type_default, p1 = omega, p2 = Some example_s6,
                   p3 = None, p4 = None, p5 = None, support = None, avg_bonus = 0, shift_note = []\<rparr>)"
    by code_simp
  then show "\<exists>sh. auto_assign_schedule ''2024-05-01'' ''10:00'' [example_s6] = Inr (Some sh) \<and>
            p3 sh = None \<and> p4 sh = None \<and> p5 sh = None \<and> avg_bonus sh = 0"
    by simp
qed


theorem avg_bonus_is_mean_of_pushers_witness:
  "[double_without_second] \<noteq> [] \<and>
   (\<exists>sh. auto_assign_schedule ''2024-05-01'' ''10:00'' [double_without_second] = Inr (Some sh) \<and>
         avg_bonus sh = mean_pusher_bonus sh) \<and>
   [''2024-05-01'' \<mapsto> [(''10:00'', example_edited_slot)]] ''2024-05-01'' =
     Some [(''10:00'', example_edited_slot)] \<and>
   (\<exists>sl'. refresh_schedule ''2024-05-02'' (Some ''2024-05-01'')
              [''2024-05-01'' \<mapsto> [(''10:00'', example_edited_slot)]] =
            Inr ([''2024-05-01'' \<mapsto> [(''10:00'', example_edited_slot)]]
                   (''2024-05-01'' \<mapsto> [(''10:00'', sl')])) \<and>
          applicants sl' = [double_without_second] \<and>
          avg_bonus sl' = mean_pusher_bonus sl')"
proof -
  let ?sched = "[''2024-05-01'' \<mapsto> [(''10:00'', example_edited_slot)]]"
  let ?X = "update_slot example_edited_slot (assigned_shift [double_without_second]) [double_without_second]"
  have ne: "[double_without_second] \<noteq> []" by simp
  have d: "?sched ''2024-05-01'' = Some [(''10:00'', example_edited_slot)]" by simp
  have a: "applicants example_edited_slot = [double_without_second]"
    by (simp add: example_edited_slot_def)
  have rs: "refresh_slots ''2024-05-01'' [(''10:00'', example_edited_slot)] = Inr [(''10:00'', ?X)]"
    by (simp add: refresh_slot_def a Let_def auto_assign_schedule_eq)
  then have ev: "refresh_schedule ''2024-05-02'' (Some ''2024-05-01'') ?sched =
      Inr (?sched(''2024-05-01'' \<mapsto> [(''10:00'', ?X)]))"
    by (simp add: refresh_schedule_def)
  have ax: "applicants ?X = [double_without_second]"
    by (simp add: update_slot_def)
  note t = avg_bonus_is_mean_of_pushers
    [where apps = "[double_without_second]" and dt = "''2024-05-01''" and hour = "''10:00''"
       and schedule = ?sched and d = "''2024-05-01''" and day = "[(''10:00'', example_edited_slot)]"
       and today = "''2024-05-02''"]
  from t ne have p1: "\<exists>sh. auto_assign_schedule ''2024-05-01'' ''10:00'' [double_without_second] = Inr (Some sh) \<and>
         avg_bonus sh = mean_pusher_bonus sh"
    by blast
  from t d obtain day' where r: "refresh_schedule ''2024-05-02'' (Some ''2024-05-01'') ?sched =
            Inr (?sched(''2024-05-01'' \<mapsto> day'))"
    and inv: "\<forall>(h, sl) \<in> set day'. applicants sl \<noteq> [] \<longrightarrow> avg_bonus sl = mean_pusher_bonus sl"
    by blast
  from r ev have "(?sched(''2024-05-01'' \<mapsto> day')) ''2024-05-01'' =
      (?sched(''2024-05-01'' \<mapsto> [(''10:00'', ?X)])) ''2024-05-01''"
    by (simp only: sum.inject)
  then have "day' = [(''10:00'', ?X)]" by simp
  with inv ax have "avg_bonus ?X = mean_pusher_bonus ?X" by simp
  with ev ax have "\<exists>sl'. refresh_schedule ''2024-05-02'' (Some ''2024-05-01'') ?sched =
            Inr (?sched(''2024-05-01'' \<mapsto> [(''10:00'', sl')])) \<and>
          applicants sl' = [double_without_second] \<and>
          avg_bonus sl' = mean_pusher_bonus sl'"
    by (intro exI [of _ ?X] conjI)
  with ne d p1 show ?thesis by (intro conjI)
qed

lemma update_slot_record:
  "update_slot sl sh apps =
     \<lparr>car_type = car_type sh, p1 = p1 sh, p2 = p2 sh, p3 = p3 sh, p4 = p4 sh, p5 = p5 sh,
      support = support sh, avg_bonus = avg_bonus sh, shift_note = shift_note sh,
      applicants = apps\<rparr>"
  by (cases sl) (simp add: update_slot_def)

text \<open>
  Claim C10. When \<^verbatim>\<open>refresh_schedule\<close> re-assigns a stored slot with a non-empty applicant
  list, the slot afterwards has the default car type and the empty note, whatever these
  fields held before; it consists of the role slots and the average of the freshly built
  shift, and of the applicant list, which is unchanged.
\<close>

theorem refresh_resets_car_type_and_note:
  assumes "schedule d = Some day" and "map_of day h = Some sl" and "applicants sl \<noteq> []"
  shows "\<exists>day' sl' sh.
           refresh_schedule today (Some d) schedule = Inr (schedule(d \<mapsto> day')) \<and>
           map_of day' h = Some sl' \<and>
           auto_assign_schedule d h (applicants sl) = Inr (Some sh) \<and>
           sl' = \<lparr>car_type = car_type_default, p1 = omega, p2 = p2 sh, p3 = p3 sh, p4 = p4 sh,
                  p5 = p5 sh, support = support sh, avg_bonus = avg_bonus sh, shift_note = [],
                  applicants = applicants sl\<rparr> \<and>
           car_type sl' = car_type_default \<and> shift_note sl' = []"
proof -
  from refresh_slots_total obtain day' where r: "refresh_slots d day = Inr day'" by blast
  from refresh_slots_map_of [OF r assms(2)] obtain sl' where m: "map_of day' h = Some sl'"
    and s: "refresh_slot d h sl = Inr sl'" by blast
  from s assms(3) refresh_slot_result [of d h sl]
  have sl': "sl' = update_slot sl (assigned_shift (applicants sl)) (applicants sl)" by auto
  have c: "car_type (assigned_shift (applicants sl)) = car_type_default"
    and n: "shift_note (assigned_shift (applicants sl)) = []"
    and l: "p1 (assigned_shift (applicants sl)) = omega"
    by (simp_all add: assigned_shift_def Let_def base_shift_def)
  have e: "sl' = \<lparr>car_type = car_type_default, p1 = omega,
                  p2 = p2 (assigned_shift (applicants sl)), p3 = p3 (assigned_shift (applicants sl)),
                  p4 = p4 (assigned_shift (applicants sl)), p5 = p5 (assigned_shift (applicants sl)),
                  support = support (assigned_shift (applicants sl)),
                  avg_bonus = avg_bonus (assigned_shift (applicants sl)), shift_note = [],
                  applicants = applicants sl\<rparr>"
    unfolding sl' update_slot_record by (simp only: c n l)
  have a: "auto_assign_schedule d h (applicants sl) = Inr (Some (assigned_shift (applicants sl)))"
    using assms(3) by (rule auto_assign_schedule_eq)
  have f: "refresh_schedule today (Some d) schedule = Inr (schedule(d \<mapsto> day'))"
    using assms(1) r by (simp add: refresh_schedule_def)
  from e have "car_type sl' = car_type_default" "shift_note sl' = []" by simp_all
  with f m a e show ?thesis by blast
qed

theorem refresh_resets_car_type_and_note_witness:
  "[''2024-05-01'' \<mapsto> [(''10:00'', example_edited_slot)]] ''2024-05-01'' =
     Some [(''10:00'', example_edited_slot)] \<and>
   map_of [(''10:00'', example_edited_slot)] ''10:00'' = Some example_edited_slot \<and>
   applicants example_edited_slot \<noteq> [] \<and>
   car_type example_edited_slot = ''sage'' \<and> shift_note example_edited_slot = ''full combo only'' \<and>
   (\<exists>day' sl'.
      refresh_schedule ''2024-05-01'' (Some ''2024-05-01'')
          [''2024-05-01'' \<mapsto> [(''10:00'', example_edited_slot)]] =
        Inr ([''2024-05-01'' \<mapsto> [(''10:00'', example_edited_slot)]](''2024-05-01'' \<mapsto> day')) \<and>
      map_of day' ''10:00'' = Some sl' \<and>
      car_type sl' = car_type_default \<and> shift_note sl' = [] \<and>
      applicants sl' = [double_without_second])"
proof -
  have d: "[''2024-05-01'' \<mapsto> [(''10:00'', example_edited_slot)]] ''2024-05-01'' =
     Some [(''10:00'', example_edited_slot)]" by simp
  have m: "map_of [(''10:00'', example_edited_slot)] ''10:00'' = Some example_edited_slot" by simp
  have a: "applicants example_edited_slot = [double_without_second]"
    by (simp add: example_edited_slot_def)
  then have ne: "applicants example_edited_slot \<noteq> []" by simp
  have o: "car_type example_edited_slot = ''sage''" "shift_note example_edited_slot = ''full combo only''"
    by (simp_all add: example_edited_slot_def)
  from refresh_resets_car_type_and_note
    [where schedule = "[''2024-05-01'' \<mapsto> [(''10:00'', example_edited_slot)]]"
       and d = "''2024-05-01''" and day = "[(''10:00'', example_edited_slot)]" and h = "''10:00''"
       and sl = example_edited_slot and today = "''2024-05-01''", OF d m ne]
  obtain day' sl' sh where
    "refresh_schedule ''2024-05-01'' (Some ''2024-05-01'')
          [''2024-05-01'' \<mapsto> [(''10:00'', example_edited_slot)]] =
        Inr ([''2024-05-01'' \<mapsto> [(''10:00'', example_edited_slot)]](''2024-05-01'' \<mapsto> day')) \<and>
     map_of day' ''10:00'' = Some sl' \<and>
     auto_assign_schedule ''2024-05-01'' ''10:00'' (applicants example_edited_slot) = Inr (Some sh) \<and>
     sl' = \<lparr>car_type = car_type_default, p1 = omega, p2 = p2 sh, p3 = p3 sh, p4 = p4 sh,
            p5 = p5 sh, support = support sh, avg_bonus = avg_bonus sh, shift_note = [],
            applicants = applicants example_edited_slot\<rparr> \<and>
     car_type sl' = car_type_default \<and> shift_note sl' = []"
    by (elim exE) (rule that)
  then have "\<exists>day' sl'.
      refresh_schedule ''2024-05-01'' (Some ''2024-05-01'')
          [''2024-05-01'' \<mapsto> [(''10:00'', example_edited_slot)]] =
        Inr ([''2024-05-01'' \<mapsto> [(''10:00'', example_edited_slot)]](''2024-05-01'' \<mapsto> day')) \<and>
      map_of day' ''10:00'' = Some sl' \<and>
      car_type sl' = car_type_default \<and> shift_note sl' = [] \<and>
      applicants sl' = [double_without_second]"
    using a by (intro exI [of _ day'] exI [of _ sl']) simp
  with d m ne o show ?thesis by blast
qed

lemma micros_replace_hour:
  "H < 24 \<Longrightarrow> \<exists>st0. replace_hour now (int H) = Inr st0 \<and> micros st0 = today_at now H \<and>
      micros (add_day st0) = today_at now H + 86400000000"
  by (simp add: replace_hour_def micros_def today_at_def add_day_def)

lemma has_s6_alt_filled:
  "(case map_of today_schedule label of None \<Rightarrow> False | Some sd \<Rightarrow> p2 sd \<noteq> None) =
     alt_filled today_schedule label"
  by (simp add: alt_filled_def split: option.splits)

lemma is_signup_closed_rule:
  assumes "H < 24"
  shows "is_signup_closed now today_schedule (slot_label H) =
           (if hours_until now H \<le> 1 then Inr (True, slot_label H @ msg_closed_1h)
            else if hours_until now H \<le> 2 \<and> alt_filled today_schedule (slot_label H)
              then Inr (True, slot_label H @ msg_closed_2h)
            else Inr (False, []))"
proof -
  from assms have "H \<in> set [0..<24]" by simp
  with parse_slot_label have p: "py_int_str (before_colon (slot_label H)) = Some (int H)"
    by blast
  from micros_replace_hour [OF assms, of now] obtain st0 where r: "replace_hour now (int H) = Inr st0"
    and m0: "micros st0 = today_at now H" and m1: "micros (add_day st0) = today_at now H + 86400000000"
    by blast
  have hu: "hours_from now (if micros st0 < micros now - 12 * 3600 * 1000000 then add_day st0 else st0)
            = hours_until now H"
    by (simp add: hours_from_def hours_until_def slot_start_def m0 m1)
  have "is_signup_closed now today_schedule (slot_label H) =
          (let st = (if micros st0 < micros now - 12 * 3600 * 1000000 then add_day st0 else st0);
               hu = hours_from now st;
               has_s6 = alt_filled today_schedule (slot_label H)
           in if hu \<le> 1 then Inr (True, slot_label H @ msg_closed_1h)
              else if hu \<le> 2 \<and> has_s6 then Inr (True, slot_label H @ msg_closed_2h)
              else Inr (False, []))"
    by (simp only: is_signup_closed_def p r has_s6_alt_filled option.case sum.case)
  then show ?thesis
    by (simp only: Let_def hu)
qed

text \<open>
  Claim C1. For an hour label \<open>H\<close> from 0 to 23 and a clock reading \<open>now\<close>, the slot starts
  today at hour \<open>H\<close>, or one day later when that instant is more than 12 hours before
  \<open>now\<close>; the check reports the slot closed exactly when the hours from \<open>now\<close> to the start are
  at most 1, or at most 2 while the alt position of the slot is filled. A slot exactly 1.0
  hours away is closed, and a slot 1.01 hours away with an empty alt position is open.
\<close>

theorem closing_window_rule:
  assumes "datetime_ok now" and "H < 24"
  shows "(\<exists>msg. is_signup_closed now today_schedule (slot_label H) =
               Inr (hours_until now H \<le> 1 \<or>
                    hours_until now H \<le> 2 \<and> alt_filled today_schedule (slot_label H), msg))
         \<and> hours_until clock_0900 10 = 1
         \<and> is_signup_closed clock_0900 [] ''10:00'' = Inr (True, ''10:00'' @ msg_closed_1h)
         \<and> hours_until clock_085924 10 = 101 / 100
         \<and> is_signup_closed clock_085924 [] ''10:00'' = Inr (False, [])"
proof (intro conjI)
  show "\<exists>msg. is_signup_closed now today_schedule (slot_label H) =
               Inr (hours_until now H \<le> 1 \<or>
                    hours_until now H \<le> 2 \<and> alt_filled today_schedule (slot_label H), msg)"
    unfolding is_signup_closed_rule [OF assms(2)] by auto
  show "hours_until clock_0900 10 = 1"
    by (simp add: hours_until_def slot_start_def today_at_def micros_def clock_0900_def)
  show "hours_until clock_085924 10 = 101 / 100"
    by (simp add: hours_until_def slot_start_def today_at_def micros_def clock_085924_def)
  show "is_signup_closed clock_0900 [] ''10:00'' = Inr (True, ''10:00'' @ msg_closed_1h)"
    by code_simp
  show "is_signup_closed clock_085924 [] ''10:00'' = Inr (False, [])"
    by code_simp
qed

theorem closing_window_rule_witness:
  "datetime_ok clock_085924 \<and> (10::nat) < 24 \<and>
   alt_filled [(''10:00'', new_slot\<lparr>p2 := Some example_s6\<rparr>)] ''10:00'' \<and>
   hours_until clock_085924 10 = 101 / 100 \<and>
   (\<exists>msg. is_signup_closed clock_085924 [(''10:00'', new_slot\<lparr>p2 := Some example_s6\<rparr>)] ''10:00'' =
           Inr (True, msg))"
proof -
  have ok: "datetime_ok clock_085924"
    by (simp add: datetime_ok_def clock_085924_def)
  have h: "(10::nat) < 24" by simp
  have l: "slot_label 10 = ''10:00''" by code_simp
  have a: "alt_filled [(''10:00'', new_slot\<lparr>p2 := Some example_s6\<rparr>)] ''10:00''"
    by (simp add: alt_filled_def)
  have hu: "hours_until clock_085924 10 = 101 / 100"
    by (simp add: hours_until_def slot_start_def today_at_def micros_def clock_085924_def)
  from closing_window_rule [OF ok h, of "[(''10:00'', new_slot\<lparr>p2 := Some example_s6\<rparr>)]"]
  have "\<exists>msg. is_signup_closed clock_085924 [(''10:00'', new_slot\<lparr>p2 := Some example_s6\<rparr>)] (slot_label 10) =
               Inr (hours_until clock_085924 10 \<le> 1 \<or>
                    hours_until clock_085924 10 \<le> 2 \<and>
                    alt_filled [(''10:00'', new_slot\<lparr>p2 := Some example_s6\<rparr>)] (slot_label 10), msg)"
    by (rule conjunct1)
  then have "\<exists>msg. is_signup_closed clock_085924 [(''10:00'', new_slot\<lparr>p2 := Some example_s6\<rparr>)] ''10:00'' =
           Inr (True, msg)"
    unfolding l hu using a by simp
  with ok h a hu show ?thesis by blast
qed

section \<open>Properties of the snapshot store\<close>

lemma prefix_take_self: "prefix (take n t) t"
  by (metis append_take_drop_id prefixI)

lemma records_after_append:
  assumes "usable resp"
  shows "records (record_ranking_snapshot resp t rh) \<noteq> [] \<and>
         of_hour (take 13 t) (last (records (record_ranking_snapshot resp t rh)))"
proof (cases "records rh \<noteq> [] \<and> prefix (take 13 t) (snap_time (last (records rh)))")
  case True
  with assms show ?thesis
    by (simp add: record_ranking_snapshot_def usable_def of_hour_def)
next
  case False
  have "last (drop n (rs @ [s])) = s" if "n \<le> length rs" for n and rs :: "snapshot list" and s
    using that by simp
  with False assms show ?thesis
    by (auto simp: record_ranking_snapshot_def usable_def of_hour_def Let_def make_snapshot_def
        prefix_take_self)
qed

lemma second_append_skipped:
  assumes "usable r2" and "rs \<noteq> []" and "of_hour (take 13 t2) (last rs)" and "records rh = rs"
  shows "records (record_ranking_snapshot r2 t2 rh) = rs"
  using assms by (simp add: record_ranking_snapshot_def usable_def of_hour_def)

lemma first_append_new_hour:
  assumes "usable r1" and "\<forall>s \<in> set (records rh). \<not> of_hour (take 13 t1) s"
  shows "records_of_hour (take 13 t1) (records (record_ranking_snapshot r1 t1 rh)) =
           [make_snapshot r1 t1]"
proof -
  have nl: "\<not> (records rh \<noteq> [] \<and> prefix (take 13 t1) (snap_time (last (records rh))))"
    using assms(2) by (auto simp: of_hour_def)
  have new: "of_hour (take 13 t1) (make_snapshot r1 t1)"
    by (simp add: of_hour_def make_snapshot_def prefix_take_self)
  have none: "filter (of_hour (take 13 t1)) (drop n (records rh)) = []" for n
    using assms(2) by (auto simp: filter_empty_conv dest: in_set_dropD)
  from assms(2) have none0: "filter (of_hour (take 13 t1)) (records rh) = []"
    by (auto simp: filter_empty_conv)
  show ?thesis
    using assms(1) nl new none none0
    by (simp add: record_ranking_snapshot_def usable_def records_of_hour_def Let_def)
qed

text \<open>
  Claim C8 as stated speaks of every state of the store. In the state that holds the
  hours 10 and 11, two successive appends in hour 10 leave two stored records of hour 10:
  the duplicate test looks at the last record only, which is of hour 11, so the first
  append is stored beside the older record of hour 10.
\<close>

theorem two_records_of_one_hour:
  "records_of_hour ''2024-05-01 10''
     (records (record_ranking_snapshot example_response ''2024-05-01 10:00''
                (record_ranking_snapshot example_response ''2024-05-01 10:00'' store_10_11))) =
     [snapshot_at ''2024-05-01 10:00'', make_snapshot example_response ''2024-05-01 10:00'']
   \<and> take 13 ''2024-05-01 10:00'' = ''2024-05-01 10''
   \<and> usable example_response"
  by code_simp

text \<open>
  Claim C8, amended. Two successive appends with usable responses whose timestamps agree on
  the hour (the first 13 characters): in every state of the store the second append
  returns with the record list unchanged; and when the store holds no record of that hour
  beforehand, it afterwards holds exactly one record of that hour, the snapshot of the
  first append.
\<close>

theorem same_hour_append_keeps_first:
  assumes "usable r1" and "usable r2" and "take 13 t1 = take 13 t2"
  shows "records (record_ranking_snapshot r2 t2 (record_ranking_snapshot r1 t1 rh)) =
           records (record_ranking_snapshot r1 t1 rh)
         \<and> ((\<forall>s \<in> set (records rh). \<not> of_hour (take 13 t1) s) \<longrightarrow>
              records_of_hour (take 13 t1)
                (records (record_ranking_snapshot r2 t2 (record_ranking_snapshot r1 t1 rh))) =
              [make_snapshot r1 t1])"
proof -
  from records_after_append [OF assms(1), of t1 rh] assms(3)
  have ne: "records (record_ranking_snapshot r1 t1 rh) \<noteq> []"
    and la: "of_hour (take 13 t2) (last (records (record_ranking_snapshot r1 t1 rh)))"
    by simp_all
  have eq: "records (record_ranking_snapshot r2 t2 (record_ranking_snapshot r1 t1 rh)) =
           records (record_ranking_snapshot r1 t1 rh)"
    using assms(2) ne la by (rule second_append_skipped) simp
  show ?thesis
    unfolding eq using first_append_new_hour [OF assms(1)] by blast
qed

theorem same_hour_append_keeps_first_witness:
  "usable example_response \<and> take 13 ''2024-05-01 10:00'' = take 13 ''2024-05-01 10:00'' \<and>
   records_of_hour (take 13 ''2024-05-01 10:00'') (records store_09) = [] \<and>
   records (record_ranking_snapshot example_response ''2024-05-01 10:00''
              (record_ranking_snapshot example_response ''2024-05-01 10:00'' store_09)) =
     [snapshot_at ''2024-05-01 09:00'', make_snapshot example_response ''2024-05-01 10:00''] \<and>
   records_of_hour (take 13 ''2024-05-01 10:00'')
     (records (record_ranking_snapshot example_response ''2024-05-01 10:00''
                (record_ranking_snapshot example_response ''2024-05-01 10:00'' store_09))) =
     [make_snapshot example_response ''2024-05-01 10:00'']"
proof -
  have u: "usable example_response" by (simp add: usable_def example_response_def)
  have n: "\<forall>s \<in> set (records store_09). \<not> of_hour (take 13 ''2024-05-01 10:00'') s"
    by (simp add: store_09_def of_hour_def snapshot_at_def)
  then have n': "records_of_hour (take 13 ''2024-05-01 10:00'') (records store_09) = []"
    by (simp add: records_of_hour_def filter_empty_conv)
  have f: "records (record_ranking_snapshot example_response ''2024-05-01 10:00'' store_09) =
     [snapshot_at ''2024-05-01 09:00'', make_snapshot example_response ''2024-05-01 10:00'']"
    by code_simp
  note t = same_hour_append_keeps_first [OF u u refl, of "''2024-05-01 10:00''" store_09]
  from t have "records (record_ranking_snapshot example_response ''2024-05-01 10:00''
              (record_ranking_snapshot example_response ''2024-05-01 10:00'' store_09)) =
            records (record_ranking_snapshot example_response ''2024-05-01 10:00'' store_09)"
    by (rule conjunct1)
  then have e: "records (record_ranking_snapshot example_response ''2024-05-01 10:00''
              (record_ranking_snapshot example_response ''2024-05-01 10:00'' store_09)) =
     [snapshot_at ''2024-05-01 09:00'', make_snapshot example_response ''2024-05-01 10:00'']"
    by (simp only: f)
  from t n have h: "records_of_hour (take 13 ''2024-05-01 10:00'')
     (records (record_ranking_snapshot example_response ''2024-05-01 10:00''
                (record_ranking_snapshot example_response ''2024-05-01 10:00'' store_09))) =
     [make_snapshot example_response ''2024-05-01 10:00'']"
    by (rule conjunct2 [THEN mp])
  from u n' e h show ?thesis by (intro conjI refl)
qed


section \<open>Properties of the plan search\<close>








end
